(* ===== verification/GoBase.thy ===== *)
theory GoBase
  imports "HOL-Library.Word"
begin

unbundle bit_operations_syntax

text \<open>
  Shared vocabulary of the development: the machine types of the Go program, its three
  ways to end a call (a value, an error, a panic), state-passing versions of those, and
  the big-endian byte encoding that \<^verbatim>\<open>math/big\<close> uses for integers
  (\<^verbatim>\<open>Int.Bytes\<close>, \<^verbatim>\<open>Int.SetBytes\<close>) together with the fixed-width encoding of a
  32-byte hash.  Nothing here is specific to OZcoin.
\<close>

section \<open>Machine types\<close>

type_synonym byte = "8 word"
type_synonym bytes = "byte list"
type_synonym u64 = "64 word"

text \<open>
  \<^verbatim>\<open>[32]byte\<close>, held as the 256-bit number its bytes spell out in big-endian order; the
  zero word is \<^verbatim>\<open>SHA256Sum{}\<close>.
\<close>

type_synonym SHA256Sum = "256 word"

section \<open>Results of a Go call\<close>

text \<open>
  The errors the program distinguishes or creates: the database's missing key, any other
  failure of the database, a JSON document that cannot be decoded, a peer that cannot be
  reached, and the messages made with \<^verbatim>\<open>errors.New\<close>.
\<close>

datatype gerr = ErrNotFound | ErrDB | ErrUnmarshal | ErrNet | ErrMsg string

datatype 'a res = Ok 'a | Err gerr | Panic

definition res_bind :: "'a res \<Rightarrow> ('a \<Rightarrow> 'b res) \<Rightarrow> 'b res" where
  "res_bind m f = (case m of Ok a \<Rightarrow> f a | Err e \<Rightarrow> Err e | Panic \<Rightarrow> Panic)"

text \<open>The Go idiom \<^verbatim>\<open>x, err := f(); if err != nil { g } else { h }\<close>.\<close>

definition res_try :: "'a res \<Rightarrow> ('a \<Rightarrow> 'b res) \<Rightarrow> (gerr \<Rightarrow> 'b res) \<Rightarrow> 'b res" where
  "res_try m f g = (case m of Ok a \<Rightarrow> f a | Err e \<Rightarrow> g e | Panic \<Rightarrow> Panic)"

text \<open>Dereferencing a possibly nil pointer.\<close>

definition deref :: "'a option \<Rightarrow> 'a res" where
  "deref p = (case p of None \<Rightarrow> Panic | Some a \<Rightarrow> Ok a)"

fun is_ok :: "'a res \<Rightarrow> bool" where
  "is_ok (Ok a) = True"
| "is_ok (Err e) = False"
| "is_ok Panic = False"

named_theorems go_simps \<open>unfolding of the result and state combinators\<close>

lemma res_bind_simps [simp, go_simps]:
  "res_bind (Ok a) f = f a"
  "res_bind (Err e) f = Err e"
  "res_bind Panic f = Panic"
  by (simp_all add: res_bind_def)

lemma res_try_simps [simp, go_simps]:
  "res_try (Ok a) f g = f a"
  "res_try (Err e) f g = g e"
  "res_try Panic f g = Panic"
  by (simp_all add: res_try_def)

lemma deref_simps [simp, go_simps]:
  "deref None = Panic"
  "deref (Some a) = Ok a"
  by (simp_all add: deref_def)

lemma res_bind_assoc: "res_bind (res_bind m f) g = res_bind m (\<lambda>x. res_bind (f x) g)"
  by (cases m) simp_all

lemma res_bind_eq_Ok: "res_bind m f = Ok b \<longleftrightarrow> (\<exists>a. m = Ok a \<and> f a = Ok b)"
  by (cases m) auto

lemma res_try_eq_Ok:
  "res_try m f g = Ok b \<longleftrightarrow> (\<exists>a. m = Ok a \<and> f a = Ok b) \<or> (\<exists>e. m = Err e \<and> g e = Ok b)"
  by (cases m) auto

lemma is_ok_iff: "is_ok r \<longleftrightarrow> (\<exists>a. r = Ok a)"
  by (cases r) auto

section \<open>Stateful calls\<close>

text \<open>
  A method of a client takes the client and returns its result together with the client it
  leaves behind; an error or a panic keeps the effects made before it.
\<close>

type_synonym ('s, 'a) go = "'s \<Rightarrow> 'a res \<times> 's"

definition go_ret :: "'a \<Rightarrow> ('s, 'a) go" where
  "go_ret a = (\<lambda>s. (Ok a, s))"

definition go_err :: "gerr \<Rightarrow> ('s, 'a) go" where
  "go_err e = (\<lambda>s. (Err e, s))"

definition go_panic :: "('s, 'a) go" where
  "go_panic = (\<lambda>s. (Panic, s))"

definition go_bind :: "('s, 'a) go \<Rightarrow> ('a \<Rightarrow> ('s, 'b) go) \<Rightarrow> ('s, 'b) go" where
  "go_bind m f = (\<lambda>s. case m s of (Ok a, s') \<Rightarrow> f a s' | (Err e, s') \<Rightarrow> (Err e, s')
     | (Panic, s') \<Rightarrow> (Panic, s'))"

definition go_try :: "('s, 'a) go \<Rightarrow> ('a \<Rightarrow> ('s, 'b) go) \<Rightarrow> (gerr \<Rightarrow> ('s, 'b) go) \<Rightarrow> ('s, 'b) go" where
  "go_try m f g = (\<lambda>s. case m s of (Ok a, s') \<Rightarrow> f a s' | (Err e, s') \<Rightarrow> g e s'
     | (Panic, s') \<Rightarrow> (Panic, s'))"

text \<open>A call that only reads the state.\<close>

definition go_read :: "('s \<Rightarrow> 'a res) \<Rightarrow> ('s, 'a) go" where
  "go_read f = (\<lambda>s. (f s, s))"

definition go_modify :: "('s \<Rightarrow> 's) \<Rightarrow> ('s, unit) go" where
  "go_modify f = (\<lambda>s. (Ok (), f s))"

lemma go_ret_apply [simp, go_simps]: "go_ret a s = (Ok a, s)"
  by (simp add: go_ret_def)

lemma go_err_apply [simp, go_simps]: "go_err e s = (Err e, s)"
  by (simp add: go_err_def)

lemma go_panic_apply [simp, go_simps]: "go_panic s = (Panic, s)"
  by (simp add: go_panic_def)

lemma go_read_apply [simp, go_simps]: "go_read f s = (f s, s)"
  by (simp add: go_read_def)

lemma go_modify_apply [simp, go_simps]: "go_modify f s = (Ok (), f s)"
  by (simp add: go_modify_def)

lemma go_bind_apply:
  "go_bind m f s = (case m s of (Ok a, s') \<Rightarrow> f a s' | (Err e, s') \<Rightarrow> (Err e, s')
     | (Panic, s') \<Rightarrow> (Panic, s'))"
  by (simp add: go_bind_def)

lemma go_try_apply:
  "go_try m f g s = (case m s of (Ok a, s') \<Rightarrow> f a s' | (Err e, s') \<Rightarrow> g e s'
     | (Panic, s') \<Rightarrow> (Panic, s'))"
  by (simp add: go_try_def)

lemma go_bind_read [go_simps]:
  "go_bind (go_read r) f s = (case r s of Ok a \<Rightarrow> f a s | Err e \<Rightarrow> (Err e, s) | Panic \<Rightarrow> (Panic, s))"
  by (simp add: go_bind_apply split: res.splits)

lemma go_try_read [go_simps]:
  "go_try (go_read r) f g s = (case r s of Ok a \<Rightarrow> f a s | Err e \<Rightarrow> g e s | Panic \<Rightarrow> (Panic, s))"
  by (simp add: go_try_apply split: res.splits)

lemma go_bind_simps [go_simps]:
  "go_bind (go_ret a) f s = f a s"
  "go_bind (go_err e) f s = (Err e, s)"
  "go_bind go_panic f s = (Panic, s)"
  "go_bind (go_modify h) g s = g () (h s)"
  by (simp_all add: go_bind_apply)

text \<open>What every outcome of a call leaves of the state: the composition rule for invariants.\<close>

lemma go_bind_state_inv:
  assumes "P (snd (m s))"
    and "\<And>a s'. m s = (Ok a, s') \<Longrightarrow> P s' \<Longrightarrow> P (snd (f a s'))"
  shows "P (snd (go_bind m f s))"
  using assms by (auto simp: go_bind_apply split: prod.splits res.splits)

lemma go_try_state_inv:
  assumes "P (snd (m s))"
    and "\<And>a s'. m s = (Ok a, s') \<Longrightarrow> P s' \<Longrightarrow> P (snd (f a s'))"
    and "\<And>e s'. m s = (Err e, s') \<Longrightarrow> P s' \<Longrightarrow> P (snd (g e s'))"
  shows "P (snd (go_try m f g s))"
  using assms by (auto simp: go_try_apply split: prod.splits res.splits)

lemma go_bind_eq_Ok:
  "go_bind m f s = (Ok b, s'') \<longleftrightarrow> (\<exists>a s'. m s = (Ok a, s') \<and> f a s' = (Ok b, s''))"
  by (auto simp: go_bind_apply split: prod.splits res.splits)

lemma go_bind_const:
  "go_bind (go_read (\<lambda>s. r)) f = (case r of Ok a \<Rightarrow> f a | Err e \<Rightarrow> go_err e | Panic \<Rightarrow> go_panic)"
  by (rule ext) (simp add: go_bind_apply split: res.splits)

definition go_when :: "('s \<Rightarrow> bool) \<Rightarrow> ('s, unit) go \<Rightarrow> ('s, unit) go" where
  "go_when P m = (\<lambda>s. if P s then m s else (Ok (), s))"

text \<open>A call that moves the state along a relation, whatever its outcome.\<close>

definition keeps :: "('s \<Rightarrow> 's \<Rightarrow> bool) \<Rightarrow> ('s, 'a) go \<Rightarrow> bool" where
  "keeps R m \<longleftrightarrow> (\<forall>s. R s (snd (m s)))"

text \<open>For a preorder, that is inherited by every composite of such calls.\<close>

locale state_order =
  fixes R :: "'e \<Rightarrow> 's \<Rightarrow> 's \<Rightarrow> bool"
  assumes refl [simp]: "R E s s"
    and trans: "R E s t \<Longrightarrow> R E t u \<Longrightarrow> R E s u"
begin

lemma keeps_ret: "keeps (R E) (go_ret a)"
  by (simp add: keeps_def)

lemma keeps_err: "keeps (R E) (go_err e)"
  by (simp add: keeps_def)

lemma keeps_panic: "keeps (R E) go_panic"
  by (simp add: keeps_def)

lemma keeps_read: "keeps (R E) (go_read r)"
  by (simp add: keeps_def)

lemma keeps_bind: "keeps (R E) m \<Longrightarrow> (\<And>a. keeps (R E) (f a)) \<Longrightarrow> keeps (R E) (go_bind m f)"
  unfolding keeps_def by (intro allI go_bind_state_inv [where P = "R E _"]) (auto intro: trans)

lemma keeps_try:
  "keeps (R E) m \<Longrightarrow> (\<And>a. keeps (R E) (f a)) \<Longrightarrow> (\<And>e. keeps (R E) (g e)) \<Longrightarrow> keeps (R E) (go_try m f g)"
  unfolding keeps_def by (intro allI go_try_state_inv [where P = "R E _"]) (auto intro: trans)

lemma keeps_when: "keeps (R E) m \<Longrightarrow> keeps (R E) (go_when P m)"
  by (simp add: keeps_def go_when_def)

lemmas keeps_intros = keeps_ret keeps_err keeps_panic keeps_read keeps_bind keeps_try keeps_when

end

section \<open>Big-endian integers\<close>

text \<open>\<^verbatim>\<open>Int.SetBytes\<close>: the number a big-endian byte string denotes.\<close>

definition be_nat :: "bytes \<Rightarrow> nat" where
  "be_nat bs = foldl (\<lambda>a b. a * 256 + unat b) 0 bs"

text \<open>\<^verbatim>\<open>Int.Bytes\<close> on a natural number: its big-endian bytes with no leading zero.\<close>

fun nat_be :: "nat \<Rightarrow> bytes" where
  "nat_be n = (if n = 0 then [] else nat_be (n div 256) @ [of_nat (n mod 256)])"

declare nat_be.simps [simp del]

text \<open>\<^verbatim>\<open>Int.Bytes\<close> drops the sign.\<close>

definition int_be :: "int \<Rightarrow> bytes" where
  "int_be x = nat_be (nat \<bar>x\<bar>)"

text \<open>The \<^verbatim>\<open>k\<close> low-order bytes of a number, most significant first.\<close>

fun fixed_be :: "nat \<Rightarrow> nat \<Rightarrow> bytes" where
  "fixed_be 0 n = []"
| "fixed_be (Suc k) n = fixed_be k (n div 256) @ [of_nat (n mod 256)]"

lemma be_nat_Nil [simp]: "be_nat [] = 0"
  by (simp add: be_nat_def)

lemma be_nat_snoc [simp]: "be_nat (bs @ [b]) = be_nat bs * 256 + unat b"
  by (simp add: be_nat_def)

lemma unat_byte_of_nat [simp]: "unat (of_nat (n mod 256) :: byte) = n mod 256"
  by (simp add: unat_of_nat take_bit_eq_mod)

lemma nat_be_0 [simp]: "nat_be 0 = []"
  by (simp add: nat_be.simps)

lemma be_nat_nat_be [simp]: "be_nat (nat_be n) = n"
proof (induction n rule: nat_be.induct)
  case (1 n)
  then show ?case by (cases "n = 0") (simp_all add: nat_be.simps [of n])
qed

lemma nat_be_inject [simp]: "nat_be m = nat_be n \<longleftrightarrow> m = n"
  by (metis be_nat_nat_be)

lemma be_nat_bound: "be_nat bs < 256 ^ length bs"
proof (induction bs rule: rev_induct)
  case Nil
  then show ?case by simp
next
  case (snoc b bs)
  have "unat b < 256"
    using unsigned_less [of b] by simp
  then have "be_nat bs * 256 + unat b < (be_nat bs + 1) * 256"
    by simp
  also have "\<dots> \<le> 256 ^ length bs * 256"
    using snoc by (intro mult_right_mono) auto
  finally show ?case by simp
qed

lemma be_nat_int_be [simp]: "0 \<le> x \<Longrightarrow> int (be_nat (int_be x)) = x"
  by (simp add: int_be_def)

lemma int_be_0 [simp]: "int_be 0 = []"
  by (simp add: int_be_def)

lemma int_be_uminus [simp]: "int_be (- x) = int_be x"
  by (simp add: int_be_def)

lemma length_fixed_be [simp]: "length (fixed_be k n) = k"
  by (induction k arbitrary: n) simp_all

lemma be_nat_fixed_be: "be_nat (fixed_be k n) = n mod 256 ^ k"
proof (induction k arbitrary: n)
  case 0
  then show ?case by simp
next
  case (Suc k)
  have "n mod 256 ^ Suc k = 256 * (n div 256 mod 256 ^ k) + n mod 256"
    by (simp add: mod_mult2_eq)
  then show ?case using Suc by simp
qed

lemma nth_fixed_be:
  "i < k \<Longrightarrow> fixed_be k n ! i = of_nat (n div 256 ^ (k - 1 - i) mod 256)"
proof (induction k arbitrary: n)
  case 0
  then show ?case by simp
next
  case (Suc k)
  show ?case
  proof (cases "i = k")
    case True
    then show ?thesis by (simp add: nth_append)
  next
    case False
    with Suc.prems have "i < k" by simp
    then have "Suc k - 1 - i = Suc (k - 1 - i)" by simp
    with Suc.IH [OF \<open>i < k\<close>, of "n div 256"] \<open>i < k\<close> show ?thesis
      by (simp add: nth_append div_mult2_eq [symmetric])
  qed
qed

section \<open>The bytes of a hash\<close>

text \<open>\<^verbatim>\<open>h[:]\<close>: the 32 bytes of a hash.\<close>

definition sum_bytes :: "SHA256Sum \<Rightarrow> bytes" where
  "sum_bytes h = fixed_be 32 (unat h)"

text \<open>Copying 32 bytes into a \<^verbatim>\<open>SHA256Sum\<close>.\<close>

definition bytes_sum :: "bytes \<Rightarrow> SHA256Sum" where
  "bytes_sum bs = of_nat (be_nat bs)"

lemma length_sum_bytes [simp]: "length (sum_bytes h) = 32"
  by (simp add: sum_bytes_def)

lemma be_nat_sum_bytes [simp]: "be_nat (sum_bytes h) = unat h"
proof -
  have "unat h < 256 ^ 32"
    using unsigned_less [of h] by simp
  then show ?thesis by (simp add: sum_bytes_def be_nat_fixed_be)
qed

lemma bytes_sum_sum_bytes [simp]: "bytes_sum (sum_bytes h) = h"
  by (simp add: bytes_sum_def)

lemma fixed_be_be_nat: "fixed_be (length bs) (be_nat bs) = bs"
proof (induction bs rule: rev_induct)
  case (snoc b bs)
  have "unat b < 256" using unsigned_less [of b] by simp
  then have "(be_nat bs * 256 + unat b) div 256 = be_nat bs" "(be_nat bs * 256 + unat b) mod 256 = unat b" by simp_all
  with snoc show ?case by simp
qed simp

lemma sum_bytes_bytes_sum: "length bs = 32 \<Longrightarrow> sum_bytes (bytes_sum bs) = bs"
proof -
  assume l: "length bs = 32"
  then have "be_nat bs < 2 ^ 256" using be_nat_bound [of bs] by simp
  then have "unat (bytes_sum bs) = be_nat bs" by (simp add: bytes_sum_def unat_of_nat)
  then show ?thesis using fixed_be_be_nat [of bs] l by (simp add: sum_bytes_def)
qed

lemma sum_bytes_inject [simp]: "sum_bytes g = sum_bytes h \<longleftrightarrow> g = h"
  by (metis bytes_sum_sum_bytes)

lemma nth_sum_bytes:
  "i < 32 \<Longrightarrow> sum_bytes h ! i = of_nat (unat h div 256 ^ (31 - i) mod 256)"
  by (simp add: sum_bytes_def nth_fixed_be)

section \<open>Lists\<close>

lemma foldl_cong_set:
  "(\<And>a x. x \<in> set xs \<Longrightarrow> f a x = g a x) \<Longrightarrow> foldl f a xs = foldl g a xs"
  by (induction xs arbitrary: a) auto

lemma map_upt_cong:
  "(\<And>i. i < n \<Longrightarrow> f i = g i) \<Longrightarrow> map f [0..<n] = map g [0..<n]"
  by simp

lemma sum_list_map_upt: "sum_list (map f [0..<n]) = (\<Sum>i<n. f i)"
  by (metis atLeast0LessThan atLeast_upt interv_sum_list_conv_sum_set_nat)

end
