(* ===== verification/Curve.thy ===== *)
theory Curve
  imports GoBase
begin

text \<open>
  \<^verbatim>\<open>common.go\<close>, \<^verbatim>\<open>hash.go\<close> and \<^verbatim>\<open>eccpoint.go\<close>: points as the program
  stores them, hashing to scalars and to points, and random scalars.  SHA-256 and the P-256
  implementation of \<^verbatim>\<open>crypto/elliptic\<close> are parameters: \<open>hs\<close> is any function
  from byte strings to 32-byte sums, and a \<open>curve\<close> bundles the three curve operations
  the program calls with the on-curve test and the group order.  \<open>curve_ok\<close> states what the program
  relies on: the points the program reaches form the cyclic group of order \<open>N\<close>
  generated by the base point, \<open>(0, 0)\<close> stands for the point at infinity, scalars
  are big-endian byte strings, and a second summand whose y-coordinate was negated with
  \<^verbatim>\<open>Int.Neg\<close> is subtracted.
\<close>

section \<open>Parameters\<close>

type_synonym point = "int \<times> int"

record curve =
  cAdd :: "point \<Rightarrow> point \<Rightarrow> point"
  cMul :: "point \<Rightarrow> bytes \<Rightarrow> point"
  cBase :: "bytes \<Rightarrow> point"
  cOn :: "point \<Rightarrow> bool"
  cN :: int

text \<open>\<^verbatim>\<open>elliptic.P256().Params().N\<close>\<close>

definition P256_N :: int where
  "P256_N = 115792089210356248762697446949407573529996955224135760342422259061068512044369"

text \<open>\<^verbatim>\<open>y.Neg(y)\<close> on the coordinates of a point.\<close>

definition pneg :: "point \<Rightarrow> point" where
  "pneg p = (fst p, - snd p)"

text \<open>The \<open>k\<close>-th multiple of the base point.\<close>

definition gen :: "curve \<Rightarrow> int \<Rightarrow> point" where
  "gen cv k = cBase cv (nat_be (nat (k mod cN cv)))"

definition curve_ok :: "curve \<Rightarrow> bool" where
  "curve_ok cv \<longleftrightarrow>
     cN cv = P256_N
   \<and> (\<forall>bs. cBase cv bs = gen cv (int (be_nat bs)))
   \<and> (\<forall>a bs. cMul cv (gen cv a) bs = gen cv (a * int (be_nat bs)))
   \<and> (\<forall>a b. cAdd cv (gen cv a) (gen cv b) = gen cv (a + b))
   \<and> (\<forall>a b. cAdd cv (gen cv a) (pneg (gen cv b)) = gen cv (a - b))
   \<and> gen cv 0 = (0, 0)
   \<and> (\<forall>a b. gen cv a = gen cv b \<longrightarrow> a mod cN cv = b mod cN cv)
   \<and> (\<forall>a. a mod cN cv \<noteq> 0 \<longrightarrow> cOn cv (gen cv a))"

named_theorems curve_simps \<open>the group laws, for rewriting under curve_ok\<close>

lemma curve_N: "curve_ok cv \<Longrightarrow> cN cv = P256_N"
  by (simp add: curve_ok_def)

lemma P256_N_pos [simp]: "0 < P256_N" "P256_N \<noteq> 0" "1 < P256_N"
  by (simp_all add: P256_N_def)

lemma cBase_gen [curve_simps]: "curve_ok cv \<Longrightarrow> cBase cv bs = gen cv (int (be_nat bs))"
  unfolding curve_ok_def by blast

lemma cMul_gen [curve_simps]: "curve_ok cv \<Longrightarrow> cMul cv (gen cv a) bs = gen cv (a * int (be_nat bs))"
  unfolding curve_ok_def by blast

lemma cAdd_gen [curve_simps]: "curve_ok cv \<Longrightarrow> cAdd cv (gen cv a) (gen cv b) = gen cv (a + b)"
  unfolding curve_ok_def by blast

lemma cAdd_pneg_gen [curve_simps]:
  "curve_ok cv \<Longrightarrow> cAdd cv (gen cv a) (pneg (gen cv b)) = gen cv (a - b)"
  unfolding curve_ok_def by blast

lemma gen_0 [curve_simps]: "curve_ok cv \<Longrightarrow> gen cv 0 = (0, 0)"
  unfolding curve_ok_def by blast

lemma gen_eqD: "curve_ok cv \<Longrightarrow> gen cv a = gen cv b \<Longrightarrow> a mod P256_N = b mod P256_N"
  unfolding curve_ok_def by metis

lemma cOn_gen: "curve_ok cv \<Longrightarrow> a mod P256_N \<noteq> 0 \<Longrightarrow> cOn cv (gen cv a)"
  unfolding curve_ok_def by metis

lemma gen_cong: "a mod cN cv = b mod cN cv \<Longrightarrow> gen cv a = gen cv b"
  by (simp add: gen_def)

lemma gen_eq_iff: "curve_ok cv \<Longrightarrow> gen cv a = gen cv b \<longleftrightarrow> a mod P256_N = b mod P256_N"
  by (metis gen_eqD gen_cong curve_N)

lemma gen_eq_zero_iff: "curve_ok cv \<Longrightarrow> gen cv a = (0, 0) \<longleftrightarrow> a mod P256_N = 0"
  using gen_eq_iff [of cv a 0] by (simp add: gen_0)

lemma cAdd_zero_gen [curve_simps]: "curve_ok cv \<Longrightarrow> cAdd cv (0, 0) (gen cv b) = gen cv b"
  using cAdd_gen [of cv 0 b] by (simp add: gen_0)

section \<open>Points as stored\<close>

text \<open>
  \<^verbatim>\<open>ECCPoint\<close> holds two pointers to integers, either of which can be nil: the zero value,
  and what decoding \<^verbatim>\<open>{"x":null,"y":null}\<close> gives.
\<close>

record eccpoint =
  ptX :: "int option"
  ptY :: "int option"

definition pt :: "point \<Rightarrow> eccpoint" where
  "pt p = \<lparr>ptX = Some (fst p), ptY = Some (snd p)\<rparr>"

definition nil_pt :: eccpoint where
  "nil_pt = \<lparr>ptX = None, ptY = None\<rparr>"

text \<open>Reading both coordinates, which panics when a pointer is nil.\<close>

definition coords :: "eccpoint \<Rightarrow> point option" where
  "coords p = (case ptX p of None \<Rightarrow> None | Some x \<Rightarrow>
     (case ptY p of None \<Rightarrow> None | Some y \<Rightarrow> Some (x, y)))"

lemma coords_pt [simp]: "coords (pt p) = Some p"
  by (simp add: coords_def pt_def)

lemma coords_nil [simp]: "coords nil_pt = None"
  by (simp add: coords_def nil_pt_def)

text \<open>\<^verbatim>\<open>ECCPoint.Bytes\<close> of a point whose coordinates are present.\<close>

definition point_Bytes :: "point \<Rightarrow> bytes" where
  "point_Bytes p = int_be (fst p) @ int_be (snd p)"

definition ECCPoint_Bytes :: "eccpoint \<Rightarrow> bytes res" where
  "ECCPoint_Bytes p = res_bind (deref (coords p)) (\<lambda>q. Ok (point_Bytes q))"

definition ECCPoint_Empty :: "eccpoint \<Rightarrow> bool" where
  "ECCPoint_Empty p \<longleftrightarrow> ptX p = None \<or> ptY p = None"

lemma coords_None_iff: "coords p = None \<longleftrightarrow> ECCPoint_Empty p"
  by (auto simp: coords_def ECCPoint_Empty_def split: option.splits)

lemma ECCPoint_Empty_pt [simp]: "\<not> ECCPoint_Empty (pt p)" "ECCPoint_Empty nil_pt"
  by (simp_all add: ECCPoint_Empty_def pt_def nil_pt_def)

lemma ECCPoint_Bytes_pt [simp]: "ECCPoint_Bytes (pt p) = Ok (point_Bytes p)"
  by (simp add: ECCPoint_Bytes_def)

lemma ECCPoint_Bytes_nil [simp]: "ECCPoint_Bytes nil_pt = Panic"
  by (simp add: ECCPoint_Bytes_def)

section \<open>Hashes, scalars and randomness\<close>

definition sum_Int :: "SHA256Sum \<Rightarrow> int" where
  "sum_Int h = int (be_nat (sum_bytes h))"

lemma sum_Int_eq [simp]: "sum_Int h = uint h"
  by (simp add: sum_Int_def)

definition HashToPt :: "(bytes \<Rightarrow> SHA256Sum) \<Rightarrow> curve \<Rightarrow> bytes \<Rightarrow> point" where
  "HashToPt hs cv data = (let h = hs data in cBase cv (sum_bytes h))"

definition HashPt :: "(bytes \<Rightarrow> SHA256Sum) \<Rightarrow> bytes \<Rightarrow> point \<Rightarrow> SHA256Sum" where
  "HashPt hs m p = hs (m @ int_be (fst p) @ int_be (snd p))"

definition UIntBytes :: "u64 \<Rightarrow> bytes" where
  "UIntBytes x = nat_be (unat x)"

lemma be_nat_UIntBytes [simp]: "be_nat (UIntBytes x) = unat x"
  by (simp add: UIntBytes_def)

text \<open>
  \<^verbatim>\<open>RandomBytes\<close> and \<^verbatim>\<open>RandomInt\<close>: the argument is what the operating system
  returned, \<open>None\<close> when reading its generator failed.
\<close>

definition RandomBytes :: "SHA256Sum option \<Rightarrow> SHA256Sum res" where
  "RandomBytes src = (case src of None \<Rightarrow> Panic | Some buf \<Rightarrow> Ok buf)"

definition RandomInt :: "SHA256Sum option \<Rightarrow> int res" where
  "RandomInt src = res_bind (RandomBytes src) (\<lambda>buf. Ok (int (be_nat (sum_bytes buf))))"

lemma RandomInt_nonneg: "RandomInt src = Ok r \<Longrightarrow> 0 \<le> r"
  by (auto simp: RandomInt_def res_bind_eq_Ok)

lemma HashToPt_gen [curve_simps]:
  "curve_ok cv \<Longrightarrow> HashToPt hs cv data = gen cv (uint (hs data))"
  by (simp add: HashToPt_def curve_simps)

section \<open>An instance of the laws\<close>

text \<open>
  The cyclic group of order \<open>P256_N\<close> presented by discrete logarithms: the multiple
  \<open>k\<close> of the base point has x-coordinate \<open>min k (N - k)\<close> and a y-coordinate
  that carries the sign.  It satisfies \<open>curve_ok\<close> and every operation computes.
\<close>

definition log_point :: "int \<Rightarrow> point" where
  "log_point k = (let r = k mod P256_N in
     if r = 0 then (0, 0) else if 2 * r < P256_N then (r, 1) else (P256_N - r, -1))"

definition point_log :: "point \<Rightarrow> int" where
  "point_log p = fst p * snd p"

definition log_curve :: curve where
  "log_curve = \<lparr>cAdd = (\<lambda>p q. log_point (point_log p + point_log q)),
     cMul = (\<lambda>p bs. log_point (point_log p * int (be_nat bs))),
     cBase = (\<lambda>bs. log_point (int (be_nat bs))),
     cOn = (\<lambda>p. p \<noteq> (0, 0) \<and> log_point (point_log p) = p),
     cN = P256_N\<rparr>"

lemma point_log_log_point: "point_log (log_point k) mod P256_N = k mod P256_N"
  by (simp add: point_log_def log_point_def Let_def mod_minus_eq)

lemma point_log_pneg [simp]: "point_log (pneg p) = - point_log p"
  by (simp add: point_log_def pneg_def)

lemma log_point_cong: "a mod P256_N = b mod P256_N \<Longrightarrow> log_point a = log_point b"
  by (simp add: log_point_def)

lemma log_point_mod [simp]: "log_point (k mod P256_N) = log_point k"
  by (rule log_point_cong) simp

lemma gen_log_curve [simp]: "gen log_curve k = log_point k"
  by (simp add: gen_def log_curve_def)

lemma curve_ok_log_curve [simp]: "curve_ok log_curve"
  unfolding curve_ok_def
proof (intro conjI allI impI)
  show "cN log_curve = P256_N" by (simp add: log_curve_def)
  show "cBase log_curve bs = gen log_curve (int (be_nat bs))" for bs
    by (simp add: log_curve_def gen_def)
  show "cMul log_curve (gen log_curve a) bs = gen log_curve (a * int (be_nat bs))" for a bs
    unfolding gen_log_curve by (simp add: log_curve_def)
      (rule log_point_cong, metis mod_mult_left_eq point_log_log_point)
  show "cAdd log_curve (gen log_curve a) (gen log_curve b) = gen log_curve (a + b)" for a b
    unfolding gen_log_curve by (simp add: log_curve_def)
      (rule log_point_cong, metis mod_add_eq point_log_log_point)
  show "cAdd log_curve (gen log_curve a) (pneg (gen log_curve b)) = gen log_curve (a - b)" for a b
    unfolding gen_log_curve by (simp add: log_curve_def)
      (rule log_point_cong, metis mod_diff_eq point_log_log_point)
  show "gen log_curve 0 = (0, 0)" by (simp add: log_point_def)
  show "a mod cN log_curve = b mod cN log_curve" if "gen log_curve a = gen log_curve b" for a b
    using that point_log_log_point [of a] point_log_log_point [of b]
    by (simp add: log_curve_def [THEN arg_cong [where f = cN]])
  show "cOn log_curve (gen log_curve a)" if "a mod cN log_curve \<noteq> 0" for a
  proof -
    have "log_point a \<noteq> (0, 0)"
      using that by (simp add: log_point_def Let_def log_curve_def)
    moreover have "log_point (point_log (log_point a)) = log_point a"
      by (rule log_point_cong) (rule point_log_log_point)
    ultimately show ?thesis
      unfolding gen_log_curve by (simp add: log_curve_def)
  qed
qed

end
