(* ===== verification/Commitment.thy ===== *)
theory Commitment
  imports Curve
begin

text \<open>
  \<^verbatim>\<open>commitment.go\<close>: the second generator and the four Pedersen combinations
  \<open>blind * G \<plusminus> amt * PK\<close>, together with the contract between a linear
  combination and the response that closes a challenge, which the range proof and the
  ring signature both rely on.
\<close>

section \<open>The second generator\<close>

definition H_pt :: "curve \<Rightarrow> point" where
  "H_pt cv = cBase cv (int_be 11235)"

definition computeH :: "curve \<Rightarrow> point res" where
  "computeH cv = (let h = cBase cv (int_be 11235) in if \<not> cOn cv h then Panic else Ok h)"

lemma H_pt_gen [curve_simps]: "curve_ok cv \<Longrightarrow> H_pt cv = gen cv 11235"
  by (simp add: H_pt_def cBase_gen int_be_def)

text \<open>The package initialises: the panic of \<^verbatim>\<open>computeH\<close> is never taken.\<close>

lemma computeH_Ok: "curve_ok cv \<Longrightarrow> computeH cv = Ok (H_pt cv)"
  using cOn_gen [of cv 11235] H_pt_gen [of cv]
  by (simp add: computeH_def H_pt_def Let_def P256_N_def)

section \<open>Pedersen combinations\<close>

definition PedersenSumPK :: "curve \<Rightarrow> bytes \<Rightarrow> bytes \<Rightarrow> point \<Rightarrow> point" where
  "PedersenSumPK cv blind amt pk =
     (let xG = cBase cv blind; eP = cMul cv pk amt in cAdd cv xG eP)"

definition PedersenSum :: "curve \<Rightarrow> bytes \<Rightarrow> bytes \<Rightarrow> point" where
  "PedersenSum cv blind amt = PedersenSumPK cv blind amt (H_pt cv)"

definition PedersenDiffPK :: "curve \<Rightarrow> bytes \<Rightarrow> bytes \<Rightarrow> point \<Rightarrow> point" where
  "PedersenDiffPK cv blind amt pk =
     (let xG = cBase cv blind; eP = cMul cv pk amt in cAdd cv xG (pneg eP))"

definition PedersenDiff :: "curve \<Rightarrow> bytes \<Rightarrow> bytes \<Rightarrow> point" where
  "PedersenDiff cv blind amt = PedersenDiffPK cv blind amt (H_pt cv)"

text \<open>\<^verbatim>\<open>PedersenDiffPK2\<close> of \<^verbatim>\<open>ozrs.go\<close>: the same with an arbitrary first base.\<close>

definition PedersenDiffPK2 :: "curve \<Rightarrow> bytes \<Rightarrow> bytes \<Rightarrow> point \<Rightarrow> point \<Rightarrow> point" where
  "PedersenDiffPK2 cv blind amt base pk =
     (let xG = cMul cv base blind; eP = cMul cv pk amt in cAdd cv xG (pneg eP))"

lemma PedersenSumPK_gen [curve_simps]:
  "curve_ok cv \<Longrightarrow> PedersenSumPK cv b a (gen cv x) = gen cv (int (be_nat b) + x * int (be_nat a))"
  by (simp add: PedersenSumPK_def curve_simps)

lemma PedersenSum_gen [curve_simps]:
  "curve_ok cv \<Longrightarrow> PedersenSum cv b a = gen cv (int (be_nat b) + 11235 * int (be_nat a))"
  by (simp add: PedersenSum_def curve_simps)

lemma PedersenDiffPK_gen [curve_simps]:
  "curve_ok cv \<Longrightarrow> PedersenDiffPK cv b a (gen cv x) = gen cv (int (be_nat b) - x * int (be_nat a))"
  by (simp add: PedersenDiffPK_def curve_simps)

lemma PedersenDiff_gen [curve_simps]:
  "curve_ok cv \<Longrightarrow> PedersenDiff cv b a = gen cv (int (be_nat b) - 11235 * int (be_nat a))"
  by (simp add: PedersenDiff_def curve_simps)

lemma PedersenDiffPK2_gen [curve_simps]:
  "curve_ok cv \<Longrightarrow> PedersenDiffPK2 cv b a (gen cv y) (gen cv x) =
     gen cv (y * int (be_nat b) - x * int (be_nat a))"
  by (simp add: PedersenDiffPK2_def curve_simps)

section \<open>Challenges and responses\<close>

text \<open>
  What a signer and a verifier agree on: a public key for a secret under some base, the
  response to a challenge, and the verifier's combination of both.  The combination applied
  to an honest response gives back the signer's nonce commitment, so the verifier recomputes
  the very point the signer hashed.  \<open>ok\<close> is what the parties assume of the curve.
\<close>

locale response_scheme =
  fixes ok :: "'c \<Rightarrow> bool"
    and pub :: "'c \<Rightarrow> int \<Rightarrow> point"
    and combine :: "'c \<Rightarrow> int \<Rightarrow> SHA256Sum \<Rightarrow> point \<Rightarrow> point"
    and respond :: "int \<Rightarrow> int \<Rightarrow> SHA256Sum \<Rightarrow> int"
  assumes combine_respond:
      "ok c \<Longrightarrow> 0 \<le> x \<Longrightarrow> 0 \<le> k \<Longrightarrow> combine c (respond x k e) e (pub c x) = pub c k"
    and respond_nonneg: "0 \<le> x \<Longrightarrow> 0 \<le> k \<Longrightarrow> 0 \<le> respond x k e"
begin

text \<open>The verifier's point does not depend on which challenge was answered.\<close>

lemma combine_same_nonce:
  "ok c \<Longrightarrow> 0 \<le> x \<Longrightarrow> 0 \<le> k \<Longrightarrow>
     combine c (respond x k e) e (pub c x) = combine c (respond x k e') e' (pub c x)"
  by (simp add: combine_respond)

text \<open>Any hash of the verifier's point equals the hash of the nonce commitment.\<close>

lemma hash_agrees:
  "ok c \<Longrightarrow> 0 \<le> x \<Longrightarrow> 0 \<le> k \<Longrightarrow> h (combine c (respond x k e) e (pub c x)) = h (pub c k)"
  by (simp add: combine_respond)

end

text \<open>\<^verbatim>\<open>timeTravel\<close> of \<^verbatim>\<open>rangeproof.go\<close>: the response that closes a challenge.\<close>

definition timeTravel :: "int \<Rightarrow> int \<Rightarrow> SHA256Sum \<Rightarrow> int" where
  "timeTravel blind k e = (let eInt = int (be_nat (sum_bytes e)) in eInt * blind + k)"

text \<open>\<^verbatim>\<open>computeR\<close> of \<^verbatim>\<open>rangeproof.go\<close> and \<^verbatim>\<open>computeR2\<close> of \<^verbatim>\<open>ozrs.go\<close>.\<close>

definition computeR :: "curve \<Rightarrow> int \<Rightarrow> SHA256Sum \<Rightarrow> point \<Rightarrow> point" where
  "computeR cv s e pk = PedersenDiffPK cv (int_be s) (sum_bytes e) pk"

definition computeR2 :: "curve \<Rightarrow> int \<Rightarrow> SHA256Sum \<Rightarrow> point \<Rightarrow> point \<Rightarrow> point" where
  "computeR2 cv s e base pk = PedersenDiffPK2 cv (int_be s) (sum_bytes e) base pk"

lemma timeTravel_nonneg [simp]: "0 \<le> x \<Longrightarrow> 0 \<le> k \<Longrightarrow> 0 \<le> timeTravel x k e"
  by (simp add: timeTravel_def)

interpretation base_resp: response_scheme curve_ok gen computeR timeTravel
  by unfold_locales (simp_all add: computeR_def curve_simps timeTravel_def algebra_simps)

text \<open>
  With a second base \<open>b * G\<close> the context is the curve together with \<open>b\<close>: the key
  image of a ring member is its secret times the hashed point.
\<close>

definition pub2 :: "curve \<times> int \<Rightarrow> int \<Rightarrow> point" where
  "pub2 c x = gen (fst c) (snd c * x)"

definition combine2 :: "curve \<times> int \<Rightarrow> int \<Rightarrow> SHA256Sum \<Rightarrow> point \<Rightarrow> point" where
  "combine2 c s e pk = computeR2 (fst c) s e (gen (fst c) (snd c)) pk"

interpretation image_resp: response_scheme "\<lambda>c. curve_ok (fst c)" pub2 combine2 timeTravel
  by unfold_locales
    (simp_all add: pub2_def combine2_def computeR2_def curve_simps timeTravel_def algebra_simps)

end
