(* ===== verification/Address.thy ===== *)
theory Address
  imports Commitment
begin

text \<open>
  \<^verbatim>\<open>address.go\<close>: the three kinds of wallet keys.  A tracking key recognises incoming
  outputs, the private key also spends them.  Keys come off the disk and the network as JSON,
  so every coordinate and scalar is a pointer that may be nil.
\<close>

record WalletPublicKey =
  TPK :: eccpoint
  PPK :: eccpoint

record WalletTrackingKey =
  trPub :: WalletPublicKey
  TSK :: "int option"

record WalletPrivateKey =
  prTrack :: WalletTrackingKey
  PSK :: "int option"

definition TrackingKey_PublicKey :: "WalletTrackingKey \<Rightarrow> WalletPublicKey" where
  "TrackingKey_PublicKey track = trPub track"

definition PrivateKey_PublicKey :: "WalletPrivateKey \<Rightarrow> WalletPublicKey" where
  "PrivateKey_PublicKey priv = trPub (prTrack priv)"

definition TrackingKey :: "WalletPrivateKey \<Rightarrow> WalletTrackingKey" where
  "TrackingKey priv = prTrack priv"

text \<open>The two arguments are what the two calls of \<^verbatim>\<open>RandomInt\<close> draw.\<close>

definition NewPrivateKey :: "curve \<Rightarrow> SHA256Sum option \<Rightarrow> SHA256Sum option \<Rightarrow> WalletPrivateKey res" where
  "NewPrivateKey cv rnd1 rnd2 =
     res_bind (RandomInt rnd1) (\<lambda>tsk. res_bind (RandomInt rnd2) (\<lambda>psk.
       let tskP = cBase cv (int_be tsk); pskP = cBase cv (int_be psk)
       in Ok \<lparr>prTrack = \<lparr>trPub = \<lparr>TPK = pt tskP, PPK = pt pskP\<rparr>, TSK = Some tsk\<rparr>, PSK = Some psk\<rparr>))"

text \<open>A key pair whose public halves belong to its secrets, as \<^verbatim>\<open>NewPrivateKey\<close> makes them.\<close>

definition key_pair :: "curve \<Rightarrow> WalletPrivateKey \<Rightarrow> int \<Rightarrow> int \<Rightarrow> bool" where
  "key_pair cv priv tsk psk \<longleftrightarrow>
     0 \<le> tsk \<and> 0 \<le> psk \<and> TSK (prTrack priv) = Some tsk \<and> PSK priv = Some psk
   \<and> TPK (trPub (prTrack priv)) = pt (gen cv tsk) \<and> PPK (trPub (prTrack priv)) = pt (gen cv psk)"

lemma NewPrivateKey_Ok:
  "NewPrivateKey cv (Some r1) (Some r2) =
     Ok \<lparr>prTrack = \<lparr>trPub = \<lparr>TPK = pt (cBase cv (int_be (uint r1))), PPK = pt (cBase cv (int_be (uint r2)))\<rparr>,
          TSK = Some (uint r1)\<rparr>, PSK = Some (uint r2)\<rparr>"
  by (simp add: NewPrivateKey_def RandomInt_def RandomBytes_def)

lemma key_pair_NewPrivateKey:
  "curve_ok cv \<Longrightarrow> NewPrivateKey cv (Some r1) (Some r2) = Ok priv \<Longrightarrow> key_pair cv priv (uint r1) (uint r2)"
  by (auto simp: NewPrivateKey_Ok key_pair_def cBase_gen)

lemma NewPrivateKey_Panic:
  "NewPrivateKey cv None r = Panic" "NewPrivateKey cv (Some r1) None = Panic"
  by (simp_all add: NewPrivateKey_def RandomInt_def RandomBytes_def)

end
