(* ===== verification/Base64.thy ===== *)
theory Base64
  imports GoBase
begin

text \<open>
  \<^verbatim>\<open>encoding/base64\<close>, standard alphabet with padding, as the program uses it for
  public-key hashes and for the wallet token in a cookie: \<^verbatim>\<open>EncodeToString\<close> and
  \<^verbatim>\<open>DecodeString\<close> (which skips line breaks and rejects everything else outside the
  alphabet).
\<close>

definition b64_alphabet :: string where
  "b64_alphabet = ''ABCDEFGHIJKLMNOPQRSTUVWXYZabcdefghijklmnopqrstuvwxyz0123456789+/''"

definition b64_char :: "nat \<Rightarrow> char" where
  "b64_char n = b64_alphabet ! n"

fun index_of :: "'a \<Rightarrow> 'a list \<Rightarrow> nat option" where
  "index_of x [] = None"
| "index_of x (y # ys) = (if x = y then Some 0 else map_option Suc (index_of x ys))"

definition b64_val :: "char \<Rightarrow> nat option" where
  "b64_val c = index_of c b64_alphabet"

fun b64_enc :: "bytes \<Rightarrow> string" where
  "b64_enc [] = []"
| "b64_enc [a] =
     [b64_char (unat a div 4), b64_char (unat a mod 4 * 16), CHR ''='', CHR ''='']"
| "b64_enc [a, b] =
     [b64_char (unat a div 4), b64_char (unat a mod 4 * 16 + unat b div 16),
      b64_char (unat b mod 16 * 4), CHR ''='']"
| "b64_enc (a # b # c # bs) =
     b64_char (unat a div 4) # b64_char (unat a mod 4 * 16 + unat b div 16)
     # b64_char (unat b mod 16 * 4 + unat c div 64) # b64_char (unat c mod 64) # b64_enc bs"

text \<open>One quantum of four characters; the last of the input may be padded.\<close>

definition b64_quad :: "nat \<Rightarrow> nat \<Rightarrow> nat \<Rightarrow> nat \<Rightarrow> bytes" where
  "b64_quad w x y z = [of_nat (w * 4 + x div 16), of_nat (x mod 16 * 16 + y div 4), of_nat (y mod 4 * 64 + z)]"

fun b64_quads :: "string \<Rightarrow> bytes option" where
  "b64_quads [] = Some []"
| "b64_quads (w # x # y # z # cs) =
     (case (b64_val w, b64_val x, b64_val y, b64_val z) of
        (Some w', Some x', Some y', Some z') \<Rightarrow> map_option ((@) (b64_quad w' x' y' z')) (b64_quads cs)
      | (Some w', Some x', Some y', None) \<Rightarrow>
          if z = CHR ''='' \<and> cs = [] then Some (take 2 (b64_quad w' x' y' 0)) else None
      | (Some w', Some x', None, _) \<Rightarrow>
          if y = CHR ''='' \<and> z = CHR ''='' \<and> cs = [] then Some (take 1 (b64_quad w' x' 0 0)) else None
      | _ \<Rightarrow> None)"
| "b64_quads _ = None"

definition b64_dec :: "string \<Rightarrow> bytes option" where
  "b64_dec cs = b64_quads (filter (\<lambda>c. c \<noteq> CHR 0x0A \<and> c \<noteq> CHR 0x0D) cs)"

lemma b64_val_char_all: "list_all (\<lambda>n. b64_val (b64_char n) = Some n \<and> b64_char n \<noteq> CHR 0x0A \<and> b64_char n \<noteq> CHR 0x0D) [0..<64]"
  by code_simp

lemma b64_val_char: "n < 64 \<Longrightarrow> b64_val (b64_char n) = Some n"
  using b64_val_char_all by (simp add: list_all_iff)

lemma b64_char_not_newline: "n < 64 \<Longrightarrow> b64_char n \<noteq> CHR 0x0A \<and> b64_char n \<noteq> CHR 0x0D"
  using b64_val_char_all by (simp add: list_all_iff)

lemma b64_val_pad: "b64_val (CHR ''='') = None"
  by code_simp

lemma unat_byte_less: "unat (a :: byte) < 256"
  using unsigned_less [of a] by simp

lemma b64_indices:
  fixes a b c :: byte
  shows "unat a div 4 < 64" "unat a mod 4 * 16 < 64" "unat a mod 4 * 16 + unat b div 16 < 64"
    "unat b mod 16 * 4 < 64" "unat b mod 16 * 4 + unat c div 64 < 64" "unat c mod 64 < 64"
  using unat_byte_less [of a] unat_byte_less [of b] unat_byte_less [of c] by simp_all

lemma b64_enc_no_newline: "filter (\<lambda>c. c \<noteq> CHR 0x0A \<and> c \<noteq> CHR 0x0D) (b64_enc bs) = b64_enc bs"
  by (induction bs rule: b64_enc.induct) (simp_all add: b64_char_not_newline b64_indices)

text \<open>The arithmetic of one quantum: regrouping 8-bit into 6-bit digits and back.\<close>

lemma digit_div: "0 < k \<Longrightarrow> n < k \<Longrightarrow> (m * k + n) div k = (m :: nat)"
  by simp

lemma digit_mod: "0 < k \<Longrightarrow> n < k \<Longrightarrow> (m * k + n) mod k = (n :: nat)"
  by simp

lemma of_nat_byte [simp]: "of_nat (unat (a :: byte)) = a"
  by simp

lemma high_nibble: "unat (b :: byte) div 16 < 16" and high_pair: "unat (b :: byte) div 64 < 4"
  using unat_byte_less [of b] by simp_all

lemma b64_quad_3:
  "b64_quad (unat a div 4) (unat a mod 4 * 16 + unat b div 16) (unat b mod 16 * 4 + unat c div 64)
     (unat c mod 64) = [a, b, c]"
  unfolding b64_quad_def
  by (simp only: digit_div digit_mod high_nibble high_pair zero_less_numeral div_mult_mod_eq of_nat_byte)

lemma b64_quad_2:
  "take 2 (b64_quad (unat a div 4) (unat a mod 4 * 16 + unat b div 16) (unat b mod 16 * 4) 0) = [a, b]"
  using digit_div [of 4 0 "unat b mod 16"] unfolding b64_quad_def
  by (simp only: digit_div digit_mod high_nibble zero_less_numeral div_mult_mod_eq of_nat_byte add_0_right) simp

lemma b64_quad_1: "take 1 (b64_quad (unat a div 4) (unat a mod 4 * 16) 0 0) = [a]"
  using digit_div [of 16 0 "unat a mod 4"] unfolding b64_quad_def
  by (simp only: zero_less_numeral div_mult_mod_eq of_nat_byte add_0_right) simp

lemma b64_quads_enc: "b64_quads (b64_enc bs) = Some bs"
  by (induction bs rule: b64_enc.induct)
    (simp_all add: b64_val_char b64_indices b64_val_pad b64_quad_1 b64_quad_2 b64_quad_3
      del: One_nat_def take_Suc_Cons)

lemma b64_dec_enc [simp]: "b64_dec (b64_enc bs) = Some bs"
  by (simp add: b64_dec_def b64_enc_no_newline b64_quads_enc)

end
