(* ===== verification/RangeProof.thy ===== *)
theory RangeProof
  imports Commitment
begin

unbundle bit_operations_syntax

text \<open>
  \<^verbatim>\<open>rangeproof.go\<close> and \<^verbatim>\<open>RangeCommit\<close> of \<^verbatim>\<open>commitment.go\<close>: the 34-bit
  Borromean range proof that accompanies every commitment.  The random integers a signer
  draws are the arguments \<open>ks\<close>, \<open>s0\<close> and \<open>s1\<close>, indexed by bit.
\<close>

section \<open>Data\<close>

text \<open>
  One type for the proof as the program computes it (integers and points) and as it is
  stored or received (pointers that may be nil).
\<close>

record ('i, 'p) range_proof =
  rpE :: SHA256Sum
  rpSs :: "('i \<times> 'i) list"
  rpPKs :: "('p \<times> 'p) list"

type_synonym RangeProof = "(int option, eccpoint) range_proof"

definition RANGE_PROOF_LENGTH :: nat where
  "RANGE_PROOF_LENGTH = 34"

definition store_rp :: "(int, point) range_proof \<Rightarrow> RangeProof" where
  "store_rp rp = \<lparr>rpE = rpE rp, rpSs = map (map_prod Some Some) (rpSs rp),
     rpPKs = map (map_prod pt pt) (rpPKs rp)\<rparr>"

text \<open>All the dereferences of a verification at once: \<open>None\<close> when any of them panics.\<close>

definition both :: "'a option \<times> 'b option \<Rightarrow> ('a \<times> 'b) option" where
  "both ab = (case ab of (Some a, Some b) \<Rightarrow> Some (a, b) | _ \<Rightarrow> None)"

fun all_some :: "'a option list \<Rightarrow> 'a list option" where
  "all_some [] = Some []"
| "all_some (x # xs) = (case x of None \<Rightarrow> None | Some a \<Rightarrow> map_option ((#) a) (all_some xs))"

definition load_rp :: "RangeProof \<Rightarrow> (int, point) range_proof option" where
  "load_rp rp =
     (case all_some (map both (rpSs rp)) of None \<Rightarrow> None | Some ss \<Rightarrow>
      (case all_some (map (\<lambda>ab. both (map_prod coords coords ab)) (rpPKs rp)) of None \<Rightarrow> None
       | Some pks \<Rightarrow> Some \<lparr>rpE = rpE rp, rpSs = ss, rpPKs = pks\<rparr>))"

lemma all_some_map_Some [simp]: "all_some (map (\<lambda>x. Some (f x)) xs) = Some (map f xs)"
  by (induction xs) simp_all

lemma load_store_rp [simp]: "load_rp (store_rp rp) = Some rp"
proof -
  have ss: "map both (map (map_prod Some Some) xs) = map (\<lambda>x. Some (id x)) (xs :: (int \<times> int) list)" for xs
    by (auto simp: both_def)
  have ps: "map (\<lambda>ab. both (map_prod coords coords ab)) (map (map_prod pt pt) xs)
      = map (\<lambda>x. Some (id x)) xs" for xs
    by (auto simp: both_def)
  show ?thesis
    unfolding load_rp_def store_rp_def by (simp only: ss ps all_some_map_Some range_proof.simps) simp
qed

section \<open>Blinding factors and bit commitments\<close>

text \<open>One pass of the loop of \<^verbatim>\<open>ComputeBlinds\<close>; the state is \<open>sumBlind\<close> and \<open>blinds\<close>.\<close>

definition blind_step ::
    "(bytes \<Rightarrow> SHA256Sum) \<Rightarrow> curve \<Rightarrow> int \<Rightarrow> int \<times> int list \<Rightarrow> nat \<Rightarrow> int \<times> int list" where
  "blind_step hs cv target st i =
     (let sumBlind = fst st; blinds = snd st;
          r = (if i = 0 then target else 0)
      in if i = RANGE_PROOF_LENGTH - 1
         then let r = (target - sumBlind) mod cN cv
              in ((sumBlind + r) mod cN cv, blinds @ [r])
         else let hash = hs (int_be r); r = int (be_nat (sum_bytes hash))
              in (sumBlind + r, blinds @ [r]))"

definition ComputeBlinds :: "(bytes \<Rightarrow> SHA256Sum) \<Rightarrow> curve \<Rightarrow> int \<Rightarrow> int list" where
  "ComputeBlinds hs cv target =
     snd (foldl (blind_step hs cv target) (0, []) [0..<RANGE_PROOF_LENGTH])"

definition PKsForAmt :: "curve \<Rightarrow> u64 \<Rightarrow> nat \<Rightarrow> int \<Rightarrow> point \<times> point" where
  "PKsForAmt cv amt n blind =
     (let value = push_bit n 1; valueBytes = UIntBytes value;
          commit = value AND amt; commitBytes = UIntBytes commit;
          diff = PedersenSum cv (int_be 0) valueBytes;
          c0 = PedersenSum cv (int_be blind) commitBytes;
          c1 = cAdd cv c0 (pneg diff)
      in (c0, c1))"

definition HashPKs :: "(bytes \<Rightarrow> SHA256Sum) \<Rightarrow> (point \<times> point) list \<Rightarrow> SHA256Sum" where
  "HashPKs hs pks = hs (concat (map (\<lambda>i. point_Bytes (fst (pks ! i)) @ point_Bytes (snd (pks ! i)))
     [0..<RANGE_PROOF_LENGTH]))"

definition computeE :: "(bytes \<Rightarrow> SHA256Sum) \<Rightarrow> curve \<Rightarrow> SHA256Sum \<Rightarrow> int \<Rightarrow> SHA256Sum \<Rightarrow> point \<Rightarrow> SHA256Sum" where
  "computeE hs cv hashM s e pk = (let r = computeR cv s e pk in HashPt hs (sum_bytes hashM) r)"

section \<open>Signing and verifying\<close>

definition signNonZero :: "u64 \<Rightarrow> nat \<Rightarrow> bool" where
  "signNonZero amt i = (push_bit i 1 AND amt > 0)"

text \<open>The first loop of \<^verbatim>\<open>RangeSign\<close>: the point hashed for bit \<open>i\<close>.\<close>

definition sign_r :: "(bytes \<Rightarrow> SHA256Sum) \<Rightarrow> curve \<Rightarrow> u64 \<Rightarrow> SHA256Sum \<Rightarrow> (point \<times> point) list
    \<Rightarrow> (nat \<Rightarrow> SHA256Sum) \<Rightarrow> (nat \<Rightarrow> SHA256Sum) \<Rightarrow> nat \<Rightarrow> point" where
  "sign_r hs cv amt hashM pks ks s1 i =
     (let k = sum_Int (ks i); kG = cBase cv (int_be k)
      in if signNonZero amt i then kG
         else let e1 = HashPt hs (sum_bytes hashM) kG
              in computeR cv (sum_Int (s1 i)) e1 (snd (pks ! i)))"

text \<open>The second loop: the two responses of bit \<open>i\<close>, given the common challenge \<open>E\<close>.\<close>

definition sign_s :: "(bytes \<Rightarrow> SHA256Sum) \<Rightarrow> curve \<Rightarrow> u64 \<Rightarrow> SHA256Sum \<Rightarrow> (point \<times> point) list \<Rightarrow> int list
    \<Rightarrow> (nat \<Rightarrow> SHA256Sum) \<Rightarrow> (nat \<Rightarrow> SHA256Sum) \<Rightarrow> (nat \<Rightarrow> SHA256Sum) \<Rightarrow> SHA256Sum \<Rightarrow> nat \<Rightarrow> int \<times> int" where
  "sign_s hs cv amt hashM pks blinds ks s0 s1 E i =
     (if signNonZero amt i
      then let ss0 = sum_Int (s0 i); e1 = computeE hs cv hashM ss0 E (fst (pks ! i))
           in (ss0, timeTravel (blinds ! i) (sum_Int (ks i)) e1)
      else (timeTravel (blinds ! i) (sum_Int (ks i)) E, sum_Int (s1 i)))"

definition RangeSign :: "(bytes \<Rightarrow> SHA256Sum) \<Rightarrow> curve \<Rightarrow> u64 \<Rightarrow> int
    \<Rightarrow> (nat \<Rightarrow> SHA256Sum) \<Rightarrow> (nat \<Rightarrow> SHA256Sum) \<Rightarrow> (nat \<Rightarrow> SHA256Sum) \<Rightarrow> (int, point) range_proof" where
  "RangeSign hs cv amt targetBlind ks s0 s1 =
     (let blinds = ComputeBlinds hs cv targetBlind;
          pks = map (\<lambda>i. PKsForAmt cv amt i (blinds ! i)) [0..<RANGE_PROOF_LENGTH];
          hashM = HashPKs hs pks;
          rs = map (sign_r hs cv amt hashM pks ks s1) [0..<RANGE_PROOF_LENGTH];
          e0data = sum_bytes hashM @ concat (map (\<lambda>i. point_Bytes (rs ! i)) [0..<RANGE_PROOF_LENGTH]);
          E = hs e0data;
          ss = map (sign_s hs cv amt hashM pks blinds ks s0 s1 E) [0..<RANGE_PROOF_LENGTH]
      in \<lparr>rpE = E, rpSs = ss, rpPKs = pks\<rparr>)"

definition verify_r :: "(bytes \<Rightarrow> SHA256Sum) \<Rightarrow> curve \<Rightarrow> SHA256Sum \<Rightarrow> (int, point) range_proof \<Rightarrow> nat \<Rightarrow> point" where
  "verify_r hs cv hashM rp i =
     (let e1 = computeE hs cv hashM (fst (rpSs rp ! i)) (rpE rp) (fst (rpPKs rp ! i))
      in computeR cv (snd (rpSs rp ! i)) e1 (snd (rpPKs rp ! i)))"

definition rp_verify :: "(bytes \<Rightarrow> SHA256Sum) \<Rightarrow> curve \<Rightarrow> (int, point) range_proof \<Rightarrow> bool" where
  "rp_verify hs cv rp =
     (let hashM = HashPKs hs (rpPKs rp);
          e0data = sum_bytes hashM
            @ concat (map (\<lambda>i. point_Bytes (verify_r hs cv hashM rp i)) [0..<RANGE_PROOF_LENGTH]);
          e0Prime = hs e0data
      in rpE rp = e0Prime)"

text \<open>\<^verbatim>\<open>RangeProof.Verify\<close> on a stored proof: it reads every response and every key.\<close>

definition RangeProof_Verify :: "(bytes \<Rightarrow> SHA256Sum) \<Rightarrow> curve \<Rightarrow> RangeProof \<Rightarrow> bool res" where
  "RangeProof_Verify hs cv rp = res_bind (deref (load_rp rp)) (\<lambda>r. Ok (rp_verify hs cv r))"

section \<open>Commitments\<close>

record Commitment =
  cmPt :: eccpoint
  cmProof :: RangeProof

text \<open>\<^verbatim>\<open>RangeCommit\<close>: the sum of the bit commitments, with the proof.\<close>

definition RangeCommit :: "(bytes \<Rightarrow> SHA256Sum) \<Rightarrow> curve \<Rightarrow> u64 \<Rightarrow> int
    \<Rightarrow> (nat \<Rightarrow> SHA256Sum) \<Rightarrow> (nat \<Rightarrow> SHA256Sum) \<Rightarrow> (nat \<Rightarrow> SHA256Sum) \<Rightarrow> point \<times> (int, point) range_proof" where
  "RangeCommit hs cv amt targetBlind ks s0 s1 =
     (let rp = RangeSign hs cv amt targetBlind ks s0 s1;
          xy = foldl (\<lambda>xy i. let pk = fst (rpPKs rp ! i) in cAdd cv xy pk) (0, 0) [0..<RANGE_PROOF_LENGTH]
      in (xy, rp))"

definition store_commit :: "point \<times> (int, point) range_proof \<Rightarrow> Commitment" where
  "store_commit c = \<lparr>cmPt = pt (fst c), cmProof = store_rp (snd c)\<rparr>"

section \<open>Blinding factors: values and sum\<close>

lemma blind_step_first: "blind_step hs cv t (s, bl) 0 = (s + uint (hs (int_be t)), bl @ [uint (hs (int_be t))])"
  by (simp add: blind_step_def RANGE_PROOF_LENGTH_def Let_def)

lemma blind_step_mid:
  "0 < i \<Longrightarrow> i < 33 \<Longrightarrow> blind_step hs cv t (s, bl) i = (s + uint (hs []), bl @ [uint (hs [])])"
  by (simp add: blind_step_def RANGE_PROOF_LENGTH_def Let_def)

lemma blind_step_last:
  "blind_step hs cv t (s, bl) 33 = ((s + (t - s) mod cN cv) mod cN cv, bl @ [(t - s) mod cN cv])"
  by (simp add: blind_step_def RANGE_PROOF_LENGTH_def Let_def)

text \<open>The state of the loop before its last pass.\<close>

lemma blind_loop_prefix:
  "n < 33 \<Longrightarrow> foldl (blind_step hs cv t) (0, []) [0..<Suc n] =
     (uint (hs (int_be t)) + int n * uint (hs []), uint (hs (int_be t)) # replicate n (uint (hs [])))"
proof (induction n)
  case 0
  then show ?case by (simp add: blind_step_first)
next
  case (Suc n)
  then have IH: "foldl (blind_step hs cv t) (0, []) [0..<Suc n] =
     (uint (hs (int_be t)) + int n * uint (hs []), uint (hs (int_be t)) # replicate n (uint (hs [])))"
    by simp
  have "foldl (blind_step hs cv t) (0, []) [0..<Suc (Suc n)] =
      blind_step hs cv t (foldl (blind_step hs cv t) (0, []) [0..<Suc n]) (Suc n)"
    by simp
  with Suc.prems show ?case
    unfolding IH by (simp add: blind_step_mid replicate_append_same algebra_simps)
qed

lemma blind_loop_33:
  "foldl (blind_step hs cv t) (0, []) [0..<33] =
     (uint (hs (int_be t)) + 32 * uint (hs []), uint (hs (int_be t)) # replicate 32 (uint (hs [])))"
  using blind_loop_prefix [of 32 hs cv t] by (simp add: eval_nat_numeral)

text \<open>
  The closed form.  Only the first factor depends on the target: inside the loop \<open>r\<close> is a
  fresh zero for every \<open>i > 0\<close>, so the hash is that of the empty string.
\<close>

lemma ComputeBlinds_eq:
  "ComputeBlinds hs cv t =
     uint (hs (int_be t)) # replicate 32 (uint (hs []))
       @ [(t - (uint (hs (int_be t)) + 32 * uint (hs []))) mod cN cv]"
proof -
  have "[0..<RANGE_PROOF_LENGTH] = [0..<33] @ [33]"
    by (simp add: RANGE_PROOF_LENGTH_def upt_rec)
  then have "ComputeBlinds hs cv t =
      snd (blind_step hs cv t (foldl (blind_step hs cv t) (0, []) [0..<33]) 33)"
    by (simp only: ComputeBlinds_def foldl_append foldl.simps)
  then show ?thesis
    by (simp only: blind_loop_33 blind_step_last) simp
qed

lemma length_ComputeBlinds [simp]: "length (ComputeBlinds hs cv t) = RANGE_PROOF_LENGTH"
  by (simp add: ComputeBlinds_eq RANGE_PROOF_LENGTH_def)

lemma ComputeBlinds_nonneg:
  "curve_ok cv \<Longrightarrow> i < RANGE_PROOF_LENGTH \<Longrightarrow> 0 \<le> ComputeBlinds hs cv t ! i"
  by (auto simp: ComputeBlinds_eq RANGE_PROOF_LENGTH_def nth_Cons' nth_append curve_N)

lemma sum_list_ComputeBlinds:
  "curve_ok cv \<Longrightarrow> sum_list (ComputeBlinds hs cv t) mod P256_N = t mod P256_N"
  using mod_add_right_eq [of "uint (hs (int_be t)) + 32 * uint (hs [])"
      "t - (uint (hs (int_be t)) + 32 * uint (hs []))" P256_N]
  by (simp add: ComputeBlinds_eq sum_list_replicate curve_N add.assoc)

lemma sum_ComputeBlinds:
  "curve_ok cv \<Longrightarrow> (\<Sum>i<RANGE_PROOF_LENGTH. ComputeBlinds hs cv t ! i) mod P256_N = t mod P256_N"
  by (metis sum_list_ComputeBlinds sum_list_sum_nth length_ComputeBlinds atLeast0LessThan)

section \<open>Bit commitments as group elements\<close>

lemma uint_exp: "n < 64 \<Longrightarrow> uint (2 ^ n :: u64) = 2 ^ n"
  by (rule uint_2p) (simp add: word_gt_0)

lemma exp_and_eq: "2 ^ n AND amt = (if bit amt n then 2 ^ n else 0 :: u64)"
  by (rule bit_word_eqI) (auto simp: bit_simps)

lemma uint_exp_and: "n < 64 \<Longrightarrow> uint (2 ^ n AND amt :: u64) = of_bool (bit amt n) * 2 ^ n"
  by (simp add: exp_and_eq uint_exp)

lemma signNonZero_iff: "n < 64 \<Longrightarrow> signNonZero amt n \<longleftrightarrow> bit amt n"
  by (simp add: signNonZero_def exp_and_eq word_gt_0)

lemma PKsForAmt_gen:
  assumes "curve_ok cv" "n < 64" "0 \<le> blind"
  shows "PKsForAmt cv amt n blind =
    (gen cv (blind + 11235 * (of_bool (bit amt n) * 2 ^ n)),
     gen cv (blind + 11235 * (of_bool (bit amt n) * 2 ^ n) - 11235 * 2 ^ n))"
  using assms
  by (simp add: PKsForAmt_def Let_def curve_simps uint_exp_and uint_exp)

text \<open>The key whose secret is the blinding factor: the second one for a set bit.\<close>

lemma PKsForAmt_set:
  assumes "curve_ok cv" "n < 64" "0 \<le> blind" "bit amt n"
  shows "snd (PKsForAmt cv amt n blind) = gen cv blind"
  using assms by (simp add: PKsForAmt_gen)

lemma PKsForAmt_clear:
  assumes "curve_ok cv" "n < 64" "0 \<le> blind" "\<not> bit amt n"
  shows "fst (PKsForAmt cv amt n blind) = gen cv blind"
  using assms by (simp add: PKsForAmt_gen)

section \<open>Completeness of the range proof\<close>

text \<open>
  Bit by bit, the verifier recomputes the point the signer hashed: for a set bit both
  sides hash the nonce commitment of the second key, for a clear bit the challenge of the
  second key is the hash of the nonce commitment of the first.
\<close>

lemma verify_r_sign:
  assumes ok: "curve_ok cv" and i: "i < RANGE_PROOF_LENGTH"
    and b: "0 \<le> blinds ! i"
    and pk: "pks ! i = PKsForAmt cv amt i (blinds ! i)"
    and rp: "rpE rp = E" "rpPKs rp = pks" "rpSs rp ! i = sign_s hs cv amt hashM pks blinds ks s0 s1 E i"
  shows "verify_r hs cv hashM rp i = sign_r hs cv amt hashM pks ks s1 i"
proof -
  from i have i64: "i < 64" by (simp add: RANGE_PROOF_LENGTH_def)
  show ?thesis
  proof (cases "bit amt i")
    case True
    with ok i64 b pk have "snd (pks ! i) = gen cv (blinds ! i)"
      by (simp add: PKsForAmt_set)
    with True ok i64 b rp show ?thesis
      by (simp add: verify_r_def sign_r_def sign_s_def Let_def signNonZero_iff
          base_resp.combine_respond cBase_gen)
  next
    case False
    with ok i64 b pk have "fst (pks ! i) = gen cv (blinds ! i)"
      by (simp add: PKsForAmt_clear)
    with False ok i64 b rp show ?thesis
      by (simp add: verify_r_def sign_r_def sign_s_def Let_def signNonZero_iff computeE_def
          base_resp.combine_respond cBase_gen)
  qed
qed

lemma rpPKs_RangeSign:
  "rpPKs (RangeSign hs cv amt t ks s0 s1) =
     map (\<lambda>i. PKsForAmt cv amt i (ComputeBlinds hs cv t ! i)) [0..<RANGE_PROOF_LENGTH]"
  by (simp add: RangeSign_def Let_def)

lemma rp_verify_RangeSign:
  assumes "curve_ok cv"
  shows "rp_verify hs cv (RangeSign hs cv amt t ks s0 s1)"
proof -
  let ?blinds = "ComputeBlinds hs cv t"
  let ?rp = "RangeSign hs cv amt t ks s0 s1"
  let ?M = "HashPKs hs (rpPKs ?rp)"
  let ?r = "sign_r hs cv amt ?M (rpPKs ?rp) ks s1"
  have r: "verify_r hs cv ?M ?rp i = ?r i" if "i < RANGE_PROOF_LENGTH" for i
  proof (rule verify_r_sign [OF assms that, where blinds = ?blinds])
    show "0 \<le> ?blinds ! i"
      using assms that by (rule ComputeBlinds_nonneg)
    show "rpPKs ?rp ! i = PKsForAmt cv amt i (?blinds ! i)"
      using that by (simp add: rpPKs_RangeSign)
    show "rpSs ?rp ! i = sign_s hs cv amt ?M (rpPKs ?rp) ?blinds ks s0 s1 (rpE ?rp) i"
      using that by (simp add: RangeSign_def Let_def)
  qed simp_all
  have "rpE ?rp = hs (sum_bytes ?M @ concat (map (\<lambda>i. point_Bytes (?r i)) [0..<RANGE_PROOF_LENGTH]))"
    by (simp add: RangeSign_def Let_def cong: map_upt_cong)
  also have "map (\<lambda>i. point_Bytes (?r i)) [0..<RANGE_PROOF_LENGTH] =
      map (\<lambda>i. point_Bytes (verify_r hs cv ?M ?rp i)) [0..<RANGE_PROOF_LENGTH]"
    by (rule map_upt_cong) (simp add: r)
  finally show ?thesis
    by (simp add: rp_verify_def Let_def)
qed

section \<open>The committed value\<close>

lemma foldl_cAdd_gen:
  "curve_ok cv \<Longrightarrow> foldl (\<lambda>p i. cAdd cv p (gen cv (f i))) (gen cv a) xs = gen cv (a + sum_list (map f xs))"
  by (induction xs arbitrary: a) (simp_all add: curve_simps add.assoc)

lemma sum_bits: "(\<Sum>i<n. of_bool (bit amt i) * 2 ^ i) = uint (take_bit n amt :: u64)"
proof -
  have "uint (take_bit n amt) = take_bit n (uint amt)"
    by (simp add: unsigned_take_bit_eq)
  also have "\<dots> = horner_sum of_bool 2 (map (bit (uint amt)) [0..<n])"
    by (simp add: horner_sum_bit_eq_take_bit)
  also have "\<dots> = (\<Sum>i<n. of_bool (bit (uint amt) i) * 2 ^ i)"
    by (simp add: horner_sum_eq_sum atLeast0LessThan)
  also have "\<dots> = (\<Sum>i<n. of_bool (bit amt i) * 2 ^ i)"
    by (rule sum.cong) (auto simp: bit_simps dest: bit_imp_le_length)
  finally show ?thesis by simp
qed

lemma RangeCommit_gen:
  assumes "curve_ok cv"
  shows "fst (RangeCommit hs cv amt t ks s0 s1) =
    gen cv (t + 11235 * uint (take_bit RANGE_PROOF_LENGTH amt))"
proof -
  let ?b = "ComputeBlinds hs cv t"
  let ?f = "\<lambda>i. ?b ! i + 11235 * (of_bool (bit amt i) * 2 ^ i)"
  have "fst (RangeCommit hs cv amt t ks s0 s1) =
      foldl (\<lambda>p i. cAdd cv p (gen cv (?f i))) (gen cv 0) [0..<RANGE_PROOF_LENGTH]"
    unfolding RangeCommit_def Let_def fst_conv gen_0 [OF assms]
  proof (rule foldl_cong_set)
    fix p i
    assume i: "i \<in> set [0..<RANGE_PROOF_LENGTH]"
    then have "i < 64" "0 \<le> ?b ! i"
      using ComputeBlinds_nonneg [OF assms] by (auto simp: RANGE_PROOF_LENGTH_def)
    with i assms show "cAdd cv p (fst (rpPKs (RangeSign hs cv amt t ks s0 s1) ! i)) = cAdd cv p (gen cv (?f i))"
      by (simp add: rpPKs_RangeSign PKsForAmt_gen)
  qed
  also have "\<dots> = gen cv (\<Sum>i<RANGE_PROOF_LENGTH. ?f i)"
    using assms by (simp add: foldl_cAdd_gen sum_list_map_upt)
  also have "(\<Sum>i<RANGE_PROOF_LENGTH. ?f i) =
      (\<Sum>i<RANGE_PROOF_LENGTH. ?b ! i) + 11235 * uint (take_bit RANGE_PROOF_LENGTH amt)"
    by (simp only: sum.distrib sum_distrib_left [symmetric] sum_bits)
  also have "gen cv \<dots> = gen cv (t + 11235 * uint (take_bit RANGE_PROOF_LENGTH amt))"
    using sum_ComputeBlinds [OF assms, of hs t] assms
    by (intro gen_cong) (simp add: curve_N, metis mod_add_left_eq)
  finally show ?thesis .
qed

section \<open>Properties\<close>

text \<open>
  C8: A range proof made by \<^verbatim>\<open>RangeSign\<close> for any amount, any target blinding factor
  and any random draws is accepted by \<^verbatim>\<open>Verify\<close> after being stored and read back.
\<close>

theorem range_proof_complete:
  assumes "curve_ok cv"
  shows "RangeProof_Verify hs cv (store_rp (RangeSign hs cv amt t ks s0 s1)) = Ok True"
  using rp_verify_RangeSign [OF assms] by (simp add: RangeProof_Verify_def)

theorem range_proof_complete_witness:
  "RangeProof_Verify (\<lambda>bs. of_nat (length bs)) log_curve
     (store_rp (RangeSign (\<lambda>bs. of_nat (length bs)) log_curve 5000000000 77 of_nat (\<lambda>i. 3) (\<lambda>i. 9))) = Ok True"
  by (rule range_proof_complete) simp

text \<open>
  C9: \<^verbatim>\<open>RangeCommit\<close> commits to the low 34 bits of the amount under exactly the
  target blinding factor: its point is the Pedersen commitment \<open>t * G + (amt mod 2^34) * H\<close>,
  so an amount of \<open>2^34\<close> or more is silently truncated.
\<close>

theorem range_commit_opens:
  assumes "curve_ok cv" and "0 \<le> t"
  shows "fst (RangeCommit hs cv amt t ks s0 s1) =
    PedersenSum cv (int_be t) (UIntBytes (amt mod 2 ^ 34))"
proof -
  have "take_bit 34 amt = amt mod 2 ^ 34"
    by (rule take_bit_eq_mod)
  with assms show ?thesis
    by (simp add: RangeCommit_gen PedersenSum_gen RANGE_PROOF_LENGTH_def)
qed

theorem range_commit_opens_witness:
  "fst (RangeCommit (\<lambda>bs. 7) log_curve 17179869184 42 of_nat of_nat of_nat) =
    PedersenSum log_curve (int_be 42) (UIntBytes 0)"
  using range_commit_opens [of log_curve 42 "\<lambda>bs. 7" 17179869184 of_nat of_nat of_nat] by simp

text \<open>
  C30: The blinding factors of bits 1 to 32 do not depend on the target: \<^verbatim>\<open>ComputeBlinds\<close>
  hashes a fresh zero instead of the previous factor, so each is the public constant
  \<open>SHA256("")\<close>, and anyone can read those bits of a committed amount off the published keys.
\<close>

theorem commitment_bits_public:
  assumes "curve_ok cv" and "0 < i" and "i < 33"
  shows "ComputeBlinds hs cv t ! i = sum_Int (hs [])
    \<and> (fst (rpPKs (RangeSign hs cv amt t ks s0 s1) ! i) = cBase cv (sum_bytes (hs [])) \<longleftrightarrow> \<not> bit amt i)"
proof
  show b: "ComputeBlinds hs cv t ! i = sum_Int (hs [])"
    using assms by (auto simp: ComputeBlinds_eq nth_Cons' nth_append)
  have "0 < (11235 * 2 ^ i :: int)" "11235 * 2 ^ i < P256_N"
  proof -
    have "(2 :: int) ^ i \<le> 2 ^ 32"
      using assms by (intro power_increasing) auto
    then show "11235 * 2 ^ i < P256_N" by (simp add: P256_N_def)
  qed simp
  then have "(uint (hs []) + 11235 * 2 ^ i) mod P256_N \<noteq> uint (hs []) mod P256_N"
    by (metis add_diff_cancel_left' dvd_imp_le_int mod_eq_dvd_iff not_less abs_of_pos less_irrefl P256_N_pos(1))
  with assms b show "fst (rpPKs (RangeSign hs cv amt t ks s0 s1) ! i) = cBase cv (sum_bytes (hs [])) \<longleftrightarrow> \<not> bit amt i"
    by (simp add: rpPKs_RangeSign RANGE_PROOF_LENGTH_def PKsForAmt_gen cBase_gen gen_eq_iff)
qed

theorem commitment_bits_public_witness:
  "ComputeBlinds (\<lambda>bs. 7) log_curve 42 ! 5 = sum_Int 7
    \<and> (fst (rpPKs (RangeSign (\<lambda>bs. 7) log_curve 32 42 of_nat of_nat of_nat) ! 5) =
        cBase log_curve (sum_bytes 7) \<longleftrightarrow> \<not> bit (32 :: u64) 5)"
  using commitment_bits_public [of log_curve 5 "\<lambda>bs. 7" 42 32 of_nat of_nat of_nat] by simp

end
