(* ===== verification/Output.thy ===== *)
theory Output
  imports Address Base64 RangeProof
begin

unbundle bit_operations_syntax

text \<open>
  \<^verbatim>\<open>output.go\<close>, the cryptographic half: an output, how its owner recognises it, recovers
  the blinding factor and the amount, and derives the key that spends it.  (Loading an output
  from storage or from peers is in the theory \<open>Peers\<close>.)  The encoder
  \<open>enc\<close> stands for \<^verbatim>\<open>json.Marshal\<close> on an output.
\<close>

section \<open>Data\<close>

record Output =
  oPublicKey :: eccpoint
  oDestKey :: eccpoint
  oBlindSeed :: eccpoint
  oCommit :: Commitment

text \<open>\<^verbatim>\<open>OutputPlaintext\<close> of \<^verbatim>\<open>wallet-server.go\<close>; the output is a pointer.\<close>

record OutputPlaintext =
  opOutput :: "Output option"
  opHashPub :: string
  opTime :: string
  opAmount :: u64
  opHeight :: u64

definition Output_Hash :: "(bytes \<Rightarrow> SHA256Sum) \<Rightarrow> (Output \<Rightarrow> bytes) \<Rightarrow> Output \<Rightarrow> SHA256Sum" where
  "Output_Hash hs enc o1 = hs (enc o1)"

section \<open>Recognising and opening an output\<close>

definition HashSharedSecret :: "(bytes \<Rightarrow> SHA256Sum) \<Rightarrow> curve \<Rightarrow> Output \<Rightarrow> WalletTrackingKey \<Rightarrow> SHA256Sum res" where
  "HashSharedSecret hs cv o1 addr =
     res_bind (deref (TSK addr)) (\<lambda>tsk. res_bind (deref (coords (oPublicKey o1))) (\<lambda>R.
       let aR = cMul cv R (int_be tsk) in Ok (hs (point_Bytes aR))))"

definition BelongsToMe :: "(bytes \<Rightarrow> SHA256Sum) \<Rightarrow> curve \<Rightarrow> Output \<Rightarrow> WalletTrackingKey \<Rightarrow> bool res" where
  "BelongsToMe hs cv o1 addr =
     res_bind (HashSharedSecret hs cv o1 addr) (\<lambda>h.
     res_bind (deref (coords (PPK (trPub addr)))) (\<lambda>ppk.
       let dk = cAdd cv (cBase cv (sum_bytes h)) ppk
       in res_bind (deref (coords (oDestKey o1))) (\<lambda>dest. Ok (fst dk = fst dest \<and> snd dk = snd dest))))"

definition ComputeTxnPrivateKey :: "(bytes \<Rightarrow> SHA256Sum) \<Rightarrow> curve \<Rightarrow> Output \<Rightarrow> WalletPrivateKey \<Rightarrow> int res" where
  "ComputeTxnPrivateKey hs cv o1 addr =
     res_bind (HashSharedSecret hs cv o1 (TrackingKey addr)) (\<lambda>h.
     res_bind (deref (PSK addr)) (\<lambda>psk. Ok (int (be_nat (sum_bytes h)) + psk)))"

definition ComputeBlindingFactor :: "(bytes \<Rightarrow> SHA256Sum) \<Rightarrow> curve \<Rightarrow> Output \<Rightarrow> WalletPrivateKey \<Rightarrow> int res" where
  "ComputeBlindingFactor hs cv o1 addr =
     res_bind (deref (coords (oBlindSeed o1))) (\<lambda>Q.
       if fst Q = 0 \<and> snd Q = 0 then Ok 0
       else res_bind (deref (PSK addr)) (\<lambda>psk.
         let bQ = cMul cv Q (int_be psk); blind = hs (point_Bytes bQ) in Ok (sum_Int blind)))"

text \<open>
  The two nested loops of \<^verbatim>\<open>DecryptAmount\<close>: over the pair of keys of one bit, giving the
  index \<open>j\<close> of the first key that matches, and over the bits.
\<close>

fun find_key :: "curve \<Rightarrow> point \<Rightarrow> nat \<Rightarrow> eccpoint list \<Rightarrow> nat option res" where
  "find_key cv rG j [] = Ok None"
| "find_key cv rG j (pk # pks) =
     res_bind (deref (coords pk)) (\<lambda>p.
       let xy = cAdd cv p (pneg rG)
       in if fst xy = 0 \<and> snd xy = 0 then Ok (Some j) else find_key cv rG (Suc j) pks)"

fun decrypt_loop :: "curve \<Rightarrow> (nat \<times> int \<times> eccpoint \<times> eccpoint) list \<Rightarrow> u64 \<Rightarrow> u64 res" where
  "decrypt_loop cv [] tot = Ok tot"
| "decrypt_loop cv ((i, blind, pks) # rest) tot =
     (let rG = cBase cv (int_be blind)
      in res_bind (find_key cv rG 0 [fst pks, snd pks]) (\<lambda>m.
           case m of
             None \<Rightarrow> Err (ErrMsg ''Couldnt not decrypt amount'')
           | Some j \<Rightarrow> let incl = of_nat (1 - j) in decrypt_loop cv rest (tot + push_bit i 1 * incl)))"

definition DecryptAmount :: "(bytes \<Rightarrow> SHA256Sum) \<Rightarrow> curve \<Rightarrow> Output \<Rightarrow> int \<Rightarrow> u64 res" where
  "DecryptAmount hs cv o1 yOut =
     (let pks = rpPKs (cmProof (oCommit o1)); blinds = ComputeBlinds hs cv yOut
      in decrypt_loop cv (map (\<lambda>i. (i, blinds ! i, pks ! i)) [0..<length blinds]) 0)"

definition pub_hash :: "(bytes \<Rightarrow> SHA256Sum) \<Rightarrow> Output \<Rightarrow> string res" where
  "pub_hash hs o1 = res_bind (ECCPoint_Bytes (oPublicKey o1)) (\<lambda>bs. Ok (b64_enc (sum_bytes (hs bs))))"

definition DecryptCoinbase :: "(bytes \<Rightarrow> SHA256Sum) \<Rightarrow> Output \<Rightarrow> OutputPlaintext res" where
  "DecryptCoinbase hs o1 = res_bind (pub_hash hs o1) (\<lambda>hp.
     Ok \<lparr>opOutput = Some o1, opHashPub = hp, opTime = '''', opAmount = 0, opHeight = 0\<rparr>)"

text \<open>A nil result, \<open>None\<close>, says the amount could not be decrypted.\<close>

definition Decrypt :: "(bytes \<Rightarrow> SHA256Sum) \<Rightarrow> curve \<Rightarrow> Output \<Rightarrow> WalletPrivateKey \<Rightarrow> OutputPlaintext option res" where
  "Decrypt hs cv o1 addr = res_bind (pub_hash hs o1) (\<lambda>hp.
     res_bind (ComputeBlindingFactor hs cv o1 addr) (\<lambda>yOut.
     res_try (DecryptAmount hs cv o1 yOut)
       (\<lambda>amount. Ok (Some \<lparr>opOutput = Some o1, opHashPub = hp, opTime = '''', opAmount = amount, opHeight = 0\<rparr>))
       (\<lambda>e. Ok None)))"

section \<open>What decryption computes\<close>

lemma small_multiple_nonzero: "i < RANGE_PROOF_LENGTH \<Longrightarrow> 11235 * 2 ^ i mod P256_N \<noteq> 0"
proof -
  assume "i < RANGE_PROOF_LENGTH"
  then have "(2 :: int) ^ i \<le> 2 ^ 33"
    by (intro power_increasing) (auto simp: RANGE_PROOF_LENGTH_def)
  then have "11235 * 2 ^ i < P256_N" by (simp add: P256_N_def)
  moreover have "0 < (11235 * 2 ^ i :: int)" by simp
  ultimately show ?thesis by simp
qed

text \<open>The key of bit \<open>i\<close> that matches its blinding factor is the second one for a set bit.\<close>

lemma find_key_bit:
  assumes ok: "curve_ok cv" and i: "i < RANGE_PROOF_LENGTH" and b: "0 \<le> b"
    and pk: "pk = PKsForAmt cv amt i b"
  shows "find_key cv (cBase cv (int_be b)) 0 [pt (fst pk), pt (snd pk)] = Ok (Some (of_bool (bit amt i)))"
proof -
  have i64: "i < 64" using i by (simp add: RANGE_PROOF_LENGTH_def)
  have z: "fst p = 0 \<and> snd p = 0 \<longleftrightarrow> p = (0, 0)" for p :: point
    by (cases p) simp
  show ?thesis
    using ok i64 b small_multiple_nonzero [OF i]
    by (auto simp: pk PKsForAmt_gen Let_def curve_simps z gen_eq_zero_iff gen_0)
qed

lemma take_bit_Suc_word:
  "take_bit (Suc k) w = take_bit k w + (if bit w k then 2 ^ k else 0 :: u64)"
proof -
  have "take_bit k w AND (if bit w k then 2 ^ k else 0) = (0 :: u64)"
    by (rule bit_word_eqI) (auto simp: bit_simps)
  then have "take_bit k w + (if bit w k then 2 ^ k else 0) = take_bit k w OR (if bit w k then 2 ^ k else 0)"
    by (rule disjunctive_add_eq_or)
  also have "\<dots> = take_bit (Suc k) w"
    by (rule bit_word_eqI) (auto simp: bit_simps less_Suc_eq)
  finally show ?thesis by simp
qed

lemma decrypt_loop_prefix:
  assumes ok: "curve_ok cv"
    and pks: "\<And>i. i < RANGE_PROOF_LENGTH \<Longrightarrow> 0 \<le> f i \<and> g i = map_prod pt pt (PKsForAmt cv amt i (f i))"
  shows "n + k \<le> RANGE_PROOF_LENGTH \<Longrightarrow>
    decrypt_loop cv (map (\<lambda>i. (i, f i, g i)) [k..<k + n]) (take_bit k (NOT amt)) =
      Ok (take_bit (k + n) (NOT amt))"
proof (induction n arbitrary: k)
  case 0
  then show ?case by simp
next
  case (Suc n)
  then have k: "k < RANGE_PROOF_LENGTH" "k < 64" by (simp_all add: RANGE_PROOF_LENGTH_def)
  have fk: "find_key cv (cBase cv (int_be (f k))) 0 [fst (g k), snd (g k)] = Ok (Some (of_bool (bit amt k)))"
    using find_key_bit [OF ok k(1), of "f k" "PKsForAmt cv amt k (f k)" amt] pks [OF k(1)] by simp
  have tot: "take_bit k (NOT amt) + push_bit k 1 * of_nat (1 - of_bool (bit amt k)) =
      take_bit (Suc k) (NOT amt)"
    using k by (simp add: take_bit_Suc_word bit_not_iff)
  have "[k..<k + Suc n] = k # [Suc k..<Suc k + n]"
    by (simp add: upt_conv_Cons del: upt_Suc)
  then have "decrypt_loop cv (map (\<lambda>i. (i, f i, g i)) [k..<k + Suc n]) (take_bit k (NOT amt)) =
      decrypt_loop cv (map (\<lambda>i. (i, f i, g i)) [Suc k..<Suc k + n]) (take_bit (Suc k) (NOT amt))"
    by (simp only: list.map decrypt_loop.simps Let_def fst_conv snd_conv fk res_bind_simps option.case tot)
  with Suc.IH [of "Suc k"] Suc.prems show ?case by simp
qed

lemma DecryptAmount_RangeCommit:
  assumes "curve_ok cv" and "oCommit o1 = store_commit (RangeCommit hs cv amt t ks s0 s1)"
  shows "DecryptAmount hs cv o1 t = Ok (take_bit RANGE_PROOF_LENGTH (NOT amt))"
proof -
  let ?b = "ComputeBlinds hs cv t"
  have pks: "rpPKs (cmProof (oCommit o1)) =
      map (map_prod pt pt) (map (\<lambda>i. PKsForAmt cv amt i (?b ! i)) [0..<RANGE_PROOF_LENGTH])"
    by (simp add: assms(2) store_commit_def RangeCommit_def Let_def store_rp_def rpPKs_RangeSign)
  have "DecryptAmount hs cv o1 t =
      decrypt_loop cv (map (\<lambda>i. (i, ?b ! i, rpPKs (cmProof (oCommit o1)) ! i)) [0..<0 + RANGE_PROOF_LENGTH])
        (take_bit 0 (NOT amt))"
    by (simp add: DecryptAmount_def Let_def)
  also have "\<dots> = Ok (take_bit (0 + RANGE_PROOF_LENGTH) (NOT amt))"
    by (rule decrypt_loop_prefix [OF assms(1)])
      (use ComputeBlinds_nonneg [OF assms(1)] in \<open>simp_all add: pks\<close>)
  finally show ?thesis by simp
qed

section \<open>Properties\<close>

text \<open>
  C31: \<^verbatim>\<open>DecryptAmount\<close>, given the very blinding factor an amount was committed
  under, always succeeds and returns the bitwise complement of the amount's low 34 bits: the
  loop adds \<open>2^i\<close> when the first key of bit \<open>i\<close> matches, which is when the bit is clear.
\<close>

theorem decrypt_amount_complements:
  assumes "curve_ok cv" and "oCommit o1 = store_commit (RangeCommit hs cv amt t ks s0 s1)"
  shows "DecryptAmount hs cv o1 t = Ok (2 ^ 34 - 1 - amt mod 2 ^ 34)"
proof -
  have "take_bit 34 (NOT amt) = mask 34 - take_bit 34 amt"
    by (rule take_bit_not_eq_mask_diff)
  also have "\<dots> = 2 ^ 34 - 1 - amt mod 2 ^ 34"
    using take_bit_eq_mod [of 34 amt] by (simp add: mask_eq_exp_minus_1)
  finally show ?thesis
    using DecryptAmount_RangeCommit [OF assms] by (simp add: RANGE_PROOF_LENGTH_def)
qed

theorem decrypt_amount_complements_witness:
  "DecryptAmount (\<lambda>bs. 7) log_curve
     \<lparr>oPublicKey = nil_pt, oDestKey = nil_pt, oBlindSeed = nil_pt,
      oCommit = store_commit (RangeCommit (\<lambda>bs. 7) log_curve 1 42 of_nat of_nat of_nat)\<rparr> 42
   = Ok 17179869182"
  using decrypt_amount_complements [of log_curve
    "\<lparr>oPublicKey = nil_pt, oDestKey = nil_pt, oBlindSeed = nil_pt,
      oCommit = store_commit (RangeCommit (\<lambda>bs. 7) log_curve 1 42 of_nat of_nat of_nat)\<rparr>"
    "\<lambda>bs. 7" 1 42 of_nat of_nat of_nat] by simp

end
