(* ===== verification/Ozrs.thy ===== *)
theory Ozrs
  imports Output
begin

text \<open>
  \<^verbatim>\<open>ozrs.go\<close> and the data of \<^verbatim>\<open>txn.go\<close>: transactions and the one-time
  zero-sum ring signature over their bodies.  \<open>encB\<close> is \<^verbatim>\<open>json.Marshal\<close> on a
  transaction body; the random draws of a signer are the arguments \<open>k1\<close>, \<open>k2\<close> (its
  nonces) and \<open>rr\<close>, \<open>sr\<close> (the responses of the other ring members).  A nil and an
  empty slice are identified: both have length 0, which is all the program asks of them.
\<close>

section \<open>Transactions\<close>

definition TXN_NUM_INPUTS :: nat where
  "TXN_NUM_INPUTS = 8"

definition TXN_NUM_OUTPUTS :: nat where
  "TXN_NUM_OUTPUTS = 2"

record OZRS =
  zPreimage :: eccpoint
  zE :: SHA256Sum
  zRs :: "int option list"
  zSs :: "int option list"

record TxnBody =
  tbInputs :: "SHA256Sum list"
  tbOutputs :: "Output list"
  tbFee :: u64

record Txn =
  txBody :: TxnBody
  txSig :: OZRS

text \<open>The zero value of a signature: nil preimage, zero challenge, nil responses.\<close>

definition nil_sig :: OZRS where
  "nil_sig = \<lparr>zPreimage = nil_pt, zE = 0, zRs = replicate TXN_NUM_INPUTS None, zSs = replicate TXN_NUM_INPUTS None\<rparr>"

section \<open>Commitment differences and the chameleon hash\<close>

definition Preimage :: "(bytes \<Rightarrow> SHA256Sum) \<Rightarrow> curve \<Rightarrow> point \<Rightarrow> int option \<Rightarrow> point" where
  "Preimage hs cv pk sk = (let hp = HashToPt hs cv (point_Bytes pk) in
     case sk of None \<Rightarrow> hp | Some k \<Rightarrow> cMul cv hp (int_be k))"

definition out_commits :: "Output list \<Rightarrow> point list option" where
  "out_commits outs = all_some (map (\<lambda>o1. coords (cmPt (oCommit o1))) outs)"

text \<open>The total output commitment, fee included, before it is negated.\<close>

definition total_commit :: "curve \<Rightarrow> point list \<Rightarrow> u64 \<Rightarrow> point" where
  "total_commit cv commits fee =
     (let oc = foldl (cAdd cv) (0, 0) commits;
          feec = PedersenSum cv (int_be 0) (UIntBytes fee)
      in cAdd cv oc feec)"

definition commitDifferences :: "curve \<Rightarrow> point list \<Rightarrow> u64 \<Rightarrow> point list \<Rightarrow> point list" where
  "commitDifferences cv commits fee ics =
     (let oc = pneg (total_commit cv commits fee) in map (\<lambda>c. cAdd cv c oc) ics)"

definition computeE3 :: "(bytes \<Rightarrow> SHA256Sum) \<Rightarrow> curve \<Rightarrow> SHA256Sum \<Rightarrow> int \<Rightarrow> int \<Rightarrow> SHA256Sum
    \<Rightarrow> point \<Rightarrow> point \<Rightarrow> point \<Rightarrow> SHA256Sum" where
  "computeE3 hs cv hashM r s e1 di pki I =
     (let e2 = hs (sum_bytes e1);
          imgi = Preimage hs cv pki None;
          r1 = computeR cv r e1 di;
          r2 = computeR cv s e2 pki;
          r3 = computeR2 cv s e2 imgi I
      in hs (sum_bytes hashM @ point_Bytes r1 @ point_Bytes r2 @ point_Bytes r3))"

section \<open>Signing\<close>

text \<open>Indexing a slice, which panics out of range.\<close>

definition at :: "'a list \<Rightarrow> nat \<Rightarrow> 'a res" where
  "at xs i = (if i < length xs then Ok (xs ! i) else Panic)"

lemma at_Ok [simp]: "i < length xs \<Longrightarrow> at xs i = Ok (xs ! i)"
  by (simp add: at_def)

type_synonym ring_state = "SHA256Sum list \<times> int option list \<times> int option list"

text \<open>One pass of the forward loop at ring position \<open>i\<close>, over the arrays \<open>es\<close>, \<open>rs\<close>, \<open>ss\<close>.\<close>

definition ring_step :: "(bytes \<Rightarrow> SHA256Sum) \<Rightarrow> curve \<Rightarrow> SHA256Sum \<Rightarrow> point list \<Rightarrow> point list \<Rightarrow> point
    \<Rightarrow> (nat \<Rightarrow> SHA256Sum) \<Rightarrow> (nat \<Rightarrow> SHA256Sum) \<Rightarrow> nat \<Rightarrow> ring_state \<Rightarrow> ring_state res" where
  "ring_step hs cv hashM diffs pks pimg rr sr i st =
     (let (es, rs, ss) = st; r = sum_Int (rr i); s = sum_Int (sr i); next = (i + 1) mod TXN_NUM_INPUTS
      in res_bind (at diffs i) (\<lambda>d. res_bind (at pks i) (\<lambda>pk.
           Ok (es[next := computeE3 hs cv hashM r s (es ! i) d pk pimg], rs[i := Some r], ss[i := Some s]))))"

text \<open>
  The loop itself runs from the signer's successor round to the signer; it has a result only
  if \<open>idx\<close> is a position of the ring.
\<close>

partial_function (option) ring_loop ::
    "(nat \<Rightarrow> 's \<Rightarrow> 's res) \<Rightarrow> nat \<Rightarrow> nat \<Rightarrow> 's \<Rightarrow> 's res option" where
  "ring_loop step idx i st =
     (if i = idx then Some (Ok st)
      else (case step i st of
              Ok st' \<Rightarrow> ring_loop step idx ((i + 1) mod TXN_NUM_INPUTS) st'
            | Err e \<Rightarrow> Some (Err e)
            | Panic \<Rightarrow> Some Panic))"

definition ring_start :: "(bytes \<Rightarrow> SHA256Sum) \<Rightarrow> curve \<Rightarrow> SHA256Sum \<Rightarrow> point \<Rightarrow> int \<Rightarrow> int \<Rightarrow> SHA256Sum" where
  "ring_start hs cv hashM pk k1 k2 =
     hs (sum_bytes hashM @ point_Bytes (cBase cv (int_be k1)) @ point_Bytes (cBase cv (int_be k2))
         @ point_Bytes (Preimage hs cv pk (Some k2)))"

text \<open>\<^verbatim>\<open>OZRSSign\<close> once the message hash and the differences are known; \<open>None\<close> is a signer that never returns.\<close>

definition ozrs_sign :: "(bytes \<Rightarrow> SHA256Sum) \<Rightarrow> curve \<Rightarrow> SHA256Sum \<Rightarrow> point list \<Rightarrow> point list
    \<Rightarrow> int \<Rightarrow> int \<Rightarrow> nat \<Rightarrow> int \<Rightarrow> SHA256Sum \<Rightarrow> SHA256Sum \<Rightarrow> (nat \<Rightarrow> SHA256Sum) \<Rightarrow> (nat \<Rightarrow> SHA256Sum)
    \<Rightarrow> OZRS res option" where
  "ozrs_sign hs cv hashM diffs pks sk yi idx yOut k1 k2 rr sr =
     (case at pks idx of
        Err e \<Rightarrow> Some (Err e)
      | Panic \<Rightarrow> Some Panic
      | Ok pk \<Rightarrow>
        (let pimg = Preimage hs cv pk (Some sk);
             next = (idx + 1) mod TXN_NUM_INPUTS;
             es = (replicate TXN_NUM_INPUTS 0)[next := ring_start hs cv hashM pk (sum_Int k1) (sum_Int k2)]
         in map_option (\<lambda>m. res_bind m (\<lambda>(es, rs, ss).
              let e1 = es ! idx; e2 = hs (sum_bytes e1);
                  z = (yi - yOut) mod cN cv;
                  rs = rs[idx := Some (timeTravel z (sum_Int k1) e1)];
                  ss = ss[idx := Some (timeTravel sk (sum_Int k2) e2)]
              in Ok \<lparr>zPreimage = pt pimg, zE = es ! 0, zRs = rs, zSs = ss\<rparr>))
            (ring_loop (ring_step hs cv hashM diffs pks pimg rr sr) idx next
              (es, replicate TXN_NUM_INPUTS None, replicate TXN_NUM_INPUTS None))))"

definition OZRSSign :: "(bytes \<Rightarrow> SHA256Sum) \<Rightarrow> curve \<Rightarrow> (TxnBody \<Rightarrow> bytes) \<Rightarrow> Txn \<Rightarrow> point list \<Rightarrow> point list
    \<Rightarrow> int \<Rightarrow> int \<Rightarrow> nat \<Rightarrow> int \<Rightarrow> SHA256Sum \<Rightarrow> SHA256Sum \<Rightarrow> (nat \<Rightarrow> SHA256Sum) \<Rightarrow> (nat \<Rightarrow> SHA256Sum)
    \<Rightarrow> Txn res option" where
  "OZRSSign hs cv encB txn pks ics sk yi idx yOut k1 k2 rr sr =
     (let hashM = hs (encB (txBody txn))
      in case out_commits (tbOutputs (txBody txn)) of
           None \<Rightarrow> Some Panic
         | Some commits \<Rightarrow>
             map_option (\<lambda>m. res_bind m (\<lambda>sig. Ok (txn\<lparr>txSig := sig\<rparr>)))
               (ozrs_sign hs cv hashM (commitDifferences cv commits (tbFee (txBody txn)) ics) pks
                  sk yi idx yOut k1 k2 rr sr))"

section \<open>Verifying\<close>

definition ozrs_verify :: "(bytes \<Rightarrow> SHA256Sum) \<Rightarrow> curve \<Rightarrow> SHA256Sum \<Rightarrow> point list \<Rightarrow> point list \<Rightarrow> point
    \<Rightarrow> SHA256Sum \<Rightarrow> int list \<Rightarrow> int list \<Rightarrow> bool" where
  "ozrs_verify hs cv hashM diffs pks pimg e rs ss =
     (let es = foldl (\<lambda>es i. es[i + 1 := computeE3 hs cv hashM (rs ! i) (ss ! i) (es ! i) (diffs ! i) (pks ! i) pimg])
                 ((replicate TXN_NUM_INPUTS 0)[0 := e]) [0..<TXN_NUM_INPUTS - 1];
          li = TXN_NUM_INPUTS - 1;
          e0 = computeE3 hs cv hashM (rs ! li) (ss ! li) (es ! li) (diffs ! li) (pks ! li) pimg
      in e = e0)"

text \<open>
  \<^verbatim>\<open>VerifyOZRS\<close>: every commitment, response and ring member is read before the result
  is known, so it panics when any of them is nil or missing.
\<close>

definition VerifyOZRS :: "(bytes \<Rightarrow> SHA256Sum) \<Rightarrow> curve \<Rightarrow> (TxnBody \<Rightarrow> bytes) \<Rightarrow> Txn \<Rightarrow> point list \<Rightarrow> point list \<Rightarrow> bool res" where
  "VerifyOZRS hs cv encB txn pks ics =
     (let hashM = hs (encB (txBody txn)); sig = txSig txn
      in res_bind (deref (out_commits (tbOutputs (txBody txn)))) (\<lambda>commits.
         res_bind (deref (coords (zPreimage sig))) (\<lambda>pimg.
         res_bind (deref (all_some (zRs sig))) (\<lambda>rs.
         res_bind (deref (all_some (zSs sig))) (\<lambda>ss.
           if length pks < TXN_NUM_INPUTS \<or> length ics < TXN_NUM_INPUTS then Panic
           else Ok (ozrs_verify hs cv hashM (commitDifferences cv commits (tbFee (txBody txn)) ics) pks pimg (zE sig) rs ss))))))"

section \<open>Rings of challenges\<close>

text \<open>
  A ring of \<open>n\<close> challenges, each linked to the next by the response of the member between
  them.  A member who can answer any challenge at its own position so that the next challenge
  comes out as fixed beforehand closes the ring, and a verifier who follows the links once
  around from challenge 0 arrives where it started.
\<close>

locale challenge_ring =
  fixes n :: nat
    and ok :: "'c \<Rightarrow> nat \<Rightarrow> bool"
    and link :: "'c \<Rightarrow> nat \<Rightarrow> 'r \<Rightarrow> 'e \<Rightarrow> 'e"
    and start :: "'c \<Rightarrow> nat \<Rightarrow> 'k \<Rightarrow> 'e"
    and answer :: "'c \<Rightarrow> nat \<Rightarrow> 'k \<Rightarrow> 'e \<Rightarrow> 'r"
  assumes n_pos: "0 < n"
    and link_answer: "ok c i \<Longrightarrow> link c i (answer c i k e) e = start c i k"
begin

lemma follow_links:
  assumes "\<And>i. i < n \<Longrightarrow> es ((i + 1) mod n) = link c i (rs i) (es i)"
  shows "m < n \<Longrightarrow> foldl (\<lambda>e i. link c i (rs i) e) (es 0) [0..<m] = es m"
proof (induction m)
  case 0
  then show ?case by simp
next
  case (Suc m)
  then have "es (Suc m) = link c m (rs m) (es m)"
    using assms [of m] by simp
  with Suc show ?case by simp
qed

text \<open>The last link leads from challenge \<open>n - 1\<close> back to challenge 0.\<close>

lemma ring_closes:
  assumes ok: "ok c idx" and idx: "idx < n"
    and start: "es ((idx + 1) mod n) = start c idx k"
    and own: "rs idx = answer c idx k (es idx)"
    and others: "\<And>i. i < n \<Longrightarrow> i \<noteq> idx \<Longrightarrow> es ((i + 1) mod n) = link c i (rs i) (es i)"
  shows "link c (n - 1) (rs (n - 1)) (foldl (\<lambda>e i. link c i (rs i) e) (es 0) [0..<n - 1]) = es 0"
proof -
  have all: "es ((i + 1) mod n) = link c i (rs i) (es i)" if "i < n" for i
    using link_answer [OF ok] start own others [OF that] by (cases "i = idx") simp_all
  have "foldl (\<lambda>e i. link c i (rs i) e) (es 0) [0..<n - 1] = es (n - 1)"
    by (rule follow_links) (use all n_pos in auto)
  with all [of "n - 1"] n_pos show ?thesis by simp
qed

end

text \<open>Everything that stays fixed while one signature is made, with the signer's two secrets.\<close>

record ring_ctx =
  rcHs :: "bytes \<Rightarrow> SHA256Sum"
  rcCv :: curve
  rcM :: SHA256Sum
  rcDiffs :: "point list"
  rcPks :: "point list"
  rcPimg :: point
  rcZ :: int
  rcSk :: int

text \<open>The signer at position \<open>i\<close> holds the secrets of the difference, the key and the image there.\<close>

definition ring_ok :: "ring_ctx \<Rightarrow> nat \<Rightarrow> bool" where
  "ring_ok c i \<longleftrightarrow> curve_ok (rcCv c) \<and> 0 \<le> rcZ c \<and> 0 \<le> rcSk c
     \<and> rcDiffs c ! i = gen (rcCv c) (rcZ c) \<and> rcPks c ! i = gen (rcCv c) (rcSk c)
     \<and> rcPimg c = Preimage (rcHs c) (rcCv c) (rcPks c ! i) (Some (rcSk c))"

definition ring_link :: "ring_ctx \<Rightarrow> nat \<Rightarrow> int \<times> int \<Rightarrow> SHA256Sum \<Rightarrow> SHA256Sum" where
  "ring_link c i rs e = computeE3 (rcHs c) (rcCv c) (rcM c) (fst rs) (snd rs) e (rcDiffs c ! i) (rcPks c ! i) (rcPimg c)"

definition ring_first :: "ring_ctx \<Rightarrow> nat \<Rightarrow> SHA256Sum \<times> SHA256Sum \<Rightarrow> SHA256Sum" where
  "ring_first c i k = ring_start (rcHs c) (rcCv c) (rcM c) (rcPks c ! i) (sum_Int (fst k)) (sum_Int (snd k))"

definition ring_answer :: "ring_ctx \<Rightarrow> nat \<Rightarrow> SHA256Sum \<times> SHA256Sum \<Rightarrow> SHA256Sum \<Rightarrow> int \<times> int" where
  "ring_answer c i k e = (timeTravel (rcZ c) (sum_Int (fst k)) e,
     timeTravel (rcSk c) (sum_Int (snd k)) (rcHs c (sum_bytes e)))"

lemma Preimage_gen:
  "curve_ok cv \<Longrightarrow> 0 \<le> x \<Longrightarrow>
     Preimage hs cv pk (Some x) = pub2 (cv, uint (hs (point_Bytes pk))) x"
  by (simp add: Preimage_def curve_simps pub2_def)

lemma Preimage_base: "curve_ok cv \<Longrightarrow> Preimage hs cv pk None = gen cv (uint (hs (point_Bytes pk)))"
  by (simp add: Preimage_def curve_simps)

lemma computeR2_image:
  assumes "curve_ok cv" "0 \<le> x" "0 \<le> k"
  shows "computeR2 cv (timeTravel x k e) e (Preimage hs cv pk None) (Preimage hs cv pk (Some x))
    = Preimage hs cv pk (Some k)"
  using image_resp.combine_respond [of "(cv, uint (hs (point_Bytes pk)))" x k e] assms
  by (simp add: Preimage_gen Preimage_base combine2_def)

interpretation ozrs_ring: challenge_ring TXN_NUM_INPUTS ring_ok ring_link ring_first ring_answer
proof unfold_locales
  show "0 < TXN_NUM_INPUTS" by (simp add: TXN_NUM_INPUTS_def)
  show "ring_link c i (ring_answer c i k e) e = ring_first c i k" if "ring_ok c i" for c i k e
    using that by (simp add: ring_ok_def ring_link_def ring_answer_def ring_first_def ring_start_def
        computeE3_def Let_def base_resp.combine_respond computeR2_image cBase_gen)
qed

section \<open>The forward loop of a signer\<close>

lemma ring_loop_rule:
  assumes idx: "idx < TXN_NUM_INPUTS"
    and start: "P 0 st"
    and body: "\<And>j st. j < TXN_NUM_INPUTS - 1 \<Longrightarrow> P j st \<Longrightarrow>
      \<exists>st'. step ((idx + 1 + j) mod TXN_NUM_INPUTS) st = Ok st' \<and> P (Suc j) st'"
  shows "\<exists>st'. ring_loop step idx ((idx + 1) mod TXN_NUM_INPUTS) st = Some (Ok st') \<and> P (TXN_NUM_INPUTS - 1) st'"
proof -
  have "\<exists>st'. ring_loop step idx ((idx + 1 + j) mod TXN_NUM_INPUTS) st = Some (Ok st') \<and> P (TXN_NUM_INPUTS - 1) st'"
    if "j \<le> TXN_NUM_INPUTS - 1" "P j st" for j st
    using that
  proof (induction "TXN_NUM_INPUTS - 1 - j" arbitrary: j st)
    case 0
    then have "j = TXN_NUM_INPUTS - 1" by simp
    with idx have "(idx + 1 + j) mod TXN_NUM_INPUTS = idx" by simp
    with 0 \<open>j = TXN_NUM_INPUTS - 1\<close> show ?case by (simp add: ring_loop.simps)
  next
    case (Suc d)
    then have j: "j < TXN_NUM_INPUTS - 1" by simp
    obtain st' where st': "step ((idx + 1 + j) mod TXN_NUM_INPUTS) st = Ok st'" "P (Suc j) st'"
      using body [OF j Suc.prems(2)] by blast
    have ne: "(idx + 1 + j) mod TXN_NUM_INPUTS \<noteq> idx"
    proof (cases "idx + 1 + j < TXN_NUM_INPUTS")
      case False
      then have "(idx + 1 + j) mod TXN_NUM_INPUTS = idx + 1 + j - TXN_NUM_INPUTS"
        using idx j by (simp add: mod_if)
      with j False show ?thesis by simp
    qed simp
    have nxt: "((idx + 1 + j) mod TXN_NUM_INPUTS + 1) mod TXN_NUM_INPUTS = (idx + 1 + Suc j) mod TXN_NUM_INPUTS"
      by (simp add: mod_simps)
    have "\<exists>st''. ring_loop step idx ((idx + 1 + Suc j) mod TXN_NUM_INPUTS) st' = Some (Ok st'') \<and> P (TXN_NUM_INPUTS - 1) st''"
      using Suc j st' by (intro Suc.hyps(1)) auto
    with ne st'(1) nxt show ?case
      by (subst ring_loop.simps) simp
  qed
  from this [of 0 st] start show ?thesis by simp
qed

text \<open>
  What the arrays hold after \<open>j\<close> passes: the first challenge where it was put, and behind
  every visited position its drawn responses and the challenge they link to.
\<close>

definition ring_inv :: "ring_ctx \<Rightarrow> nat \<Rightarrow> SHA256Sum \<Rightarrow> (nat \<Rightarrow> SHA256Sum) \<Rightarrow> (nat \<Rightarrow> SHA256Sum) \<Rightarrow> nat \<Rightarrow> ring_state \<Rightarrow> bool" where
  "ring_inv c idx e rr sr j st \<longleftrightarrow> (case st of (es, rs, ss) \<Rightarrow>
     length es = TXN_NUM_INPUTS \<and> length rs = TXN_NUM_INPUTS \<and> length ss = TXN_NUM_INPUTS
   \<and> es ! ((idx + 1) mod TXN_NUM_INPUTS) = e
   \<and> (\<forall>j' < j. let i = (idx + 1 + j') mod TXN_NUM_INPUTS in
        rs ! i = Some (sum_Int (rr i)) \<and> ss ! i = Some (sum_Int (sr i))
      \<and> es ! ((i + 1) mod TXN_NUM_INPUTS) = ring_link c i (sum_Int (rr i), sum_Int (sr i)) (es ! i)))"

lemma ring_pos_neq:
  assumes "j < j'" "j' < TXN_NUM_INPUTS"
  shows "(idx + j) mod TXN_NUM_INPUTS \<noteq> (idx + j') mod TXN_NUM_INPUTS"
proof
  assume "(idx + j) mod TXN_NUM_INPUTS = (idx + j') mod TXN_NUM_INPUTS"
  then have "TXN_NUM_INPUTS dvd (idx + j') - (idx + j)"
    using assms by (subst mod_eq_dvd_iff_nat [symmetric]) auto
  then show False
    using assms by (auto dest: dvd_imp_le)
qed

lemma ring_step_inv:
  assumes len: "length (rcDiffs c) \<ge> TXN_NUM_INPUTS" "length (rcPks c) \<ge> TXN_NUM_INPUTS"
    and j: "j < TXN_NUM_INPUTS - 1" and inv: "ring_inv c idx e rr sr j st"
  shows "\<exists>st'. ring_step (rcHs c) (rcCv c) (rcM c) (rcDiffs c) (rcPks c) (rcPimg c) rr sr
      ((idx + 1 + j) mod TXN_NUM_INPUTS) st = Ok st' \<and> ring_inv c idx e rr sr (Suc j) st'"
proof -
  obtain es rs ss where st: "st = (es, rs, ss)" by (cases st)
  let ?i = "(idx + 1 + j) mod TXN_NUM_INPUTS"
  let ?l = "ring_link c ?i (sum_Int (rr ?i), sum_Int (sr ?i)) (es ! ?i)"
  let ?st' = "(es[(?i + 1) mod TXN_NUM_INPUTS := ?l], rs[?i := Some (sum_Int (rr ?i))], ss[?i := Some (sum_Int (sr ?i))])"
  have n: "0 < TXN_NUM_INPUTS" by (simp add: TXN_NUM_INPUTS_def)
  then have i: "?i < TXN_NUM_INPUTS" by simp
  have j1: "Suc j < TXN_NUM_INPUTS" using j by simp
  have pos: "((idx + 1 + j') mod TXN_NUM_INPUTS + 1) mod TXN_NUM_INPUTS = (idx + 1 + Suc j') mod TXN_NUM_INPUTS" for j'
    by (simp add: mod_simps)
  have ne: "(idx + 1 + a) mod TXN_NUM_INPUTS \<noteq> (idx + 1 + b) mod TXN_NUM_INPUTS"
    if "a < b" "b < TXN_NUM_INPUTS" for a b
    using ring_pos_neq [OF that, of "idx + 1"] by simp
  have step: "ring_step (rcHs c) (rcCv c) (rcM c) (rcDiffs c) (rcPks c) (rcPimg c) rr sr ?i st = Ok ?st'"
    using i len by (simp add: st ring_step_def Let_def ring_link_def)
  have "ring_inv c idx e rr sr (Suc j) ?st'"
    unfolding ring_inv_def prod.case
  proof (intro conjI allI impI)
    show "es[(?i + 1) mod TXN_NUM_INPUTS := ?l] ! ((idx + 1) mod TXN_NUM_INPUTS) = e"
    proof -
      have "(idx + 1 + 0) mod TXN_NUM_INPUTS \<noteq> (idx + 1 + Suc j) mod TXN_NUM_INPUTS"
        using j1 by (intro ne) auto
      with inv show ?thesis
        unfolding pos by (simp add: st ring_inv_def)
    qed
    fix j' assume j': "j' < Suc j"
    let ?i' = "(idx + 1 + j') mod TXN_NUM_INPUTS"
    have es: "es[(?i + 1) mod TXN_NUM_INPUTS := ?l] ! ?i' = es ! ?i'"
      using j' ne [of j' "Suc j", OF _ j1] unfolding pos by simp
    show "let i = ?i' in rs[?i := Some (sum_Int (rr ?i))] ! i = Some (sum_Int (rr i))
        \<and> ss[?i := Some (sum_Int (sr ?i))] ! i = Some (sum_Int (sr i))
        \<and> es[(?i + 1) mod TXN_NUM_INPUTS := ?l] ! ((i + 1) mod TXN_NUM_INPUTS) =
          ring_link c i (sum_Int (rr i), sum_Int (sr i)) (es[(?i + 1) mod TXN_NUM_INPUTS := ?l] ! i)"
    proof (cases "j' = j")
      case True
      with es i n inv show ?thesis by (simp add: st ring_inv_def Let_def)
    next
      case False
      with j' have lt: "j' < j" by simp
      have "?i \<noteq> ?i'" "(?i + 1) mod TXN_NUM_INPUTS \<noteq> (?i' + 1) mod TXN_NUM_INPUTS"
        using lt j1 ne [of j' j] ne [of "Suc j'" "Suc j"] unfolding pos by auto
      with es lt inv show ?thesis by (simp add: st ring_inv_def Let_def)
    qed
  qed (use inv in \<open>simp_all add: st ring_inv_def\<close>)
  with step show ?thesis by blast
qed

lemma ring_positions:
  assumes "idx < TXN_NUM_INPUTS" "i < TXN_NUM_INPUTS" "i \<noteq> idx"
  shows "\<exists>j < TXN_NUM_INPUTS - 1. i = (idx + 1 + j) mod TXN_NUM_INPUTS"
proof (cases "idx < i")
  case True
  with assms have "i - idx - 1 < TXN_NUM_INPUTS - 1" "i = (idx + 1 + (i - idx - 1)) mod TXN_NUM_INPUTS"
    by simp_all
  then show ?thesis by blast
next
  case False
  let ?j = "i + TXN_NUM_INPUTS - idx - 1"
  from False assms have "?j < TXN_NUM_INPUTS - 1" "idx + 1 + ?j = i + TXN_NUM_INPUTS"
    by auto
  moreover then have "i = (idx + 1 + ?j) mod TXN_NUM_INPUTS"
    using assms by (simp only: mod_add_self2 mod_less)
  ultimately show ?thesis by blast
qed

text \<open>The loop ends, and behind every position but the signer's the links are in place.\<close>

lemma ring_loop_result:
  assumes len: "length (rcDiffs c) \<ge> TXN_NUM_INPUTS" "length (rcPks c) \<ge> TXN_NUM_INPUTS"
    and idx: "idx < TXN_NUM_INPUTS"
  shows "\<exists>es rs ss. ring_loop (ring_step (rcHs c) (rcCv c) (rcM c) (rcDiffs c) (rcPks c) (rcPimg c) rr sr) idx
        ((idx + 1) mod TXN_NUM_INPUTS)
        ((replicate TXN_NUM_INPUTS 0)[(idx + 1) mod TXN_NUM_INPUTS := e],
         replicate TXN_NUM_INPUTS None, replicate TXN_NUM_INPUTS None) = Some (Ok (es, rs, ss))
    \<and> length es = TXN_NUM_INPUTS \<and> length rs = TXN_NUM_INPUTS \<and> length ss = TXN_NUM_INPUTS
    \<and> es ! ((idx + 1) mod TXN_NUM_INPUTS) = e
    \<and> (\<forall>i < TXN_NUM_INPUTS. i \<noteq> idx \<longrightarrow> rs ! i = Some (sum_Int (rr i)) \<and> ss ! i = Some (sum_Int (sr i))
        \<and> es ! ((i + 1) mod TXN_NUM_INPUTS) = ring_link c i (sum_Int (rr i), sum_Int (sr i)) (es ! i))"
proof -
  let ?st = "((replicate TXN_NUM_INPUTS 0)[(idx + 1) mod TXN_NUM_INPUTS := e],
         replicate TXN_NUM_INPUTS None, replicate TXN_NUM_INPUTS None) :: ring_state"
  have "ring_inv c idx e rr sr 0 ?st"
    by (simp add: ring_inv_def TXN_NUM_INPUTS_def)
  then obtain st' where st': "ring_loop (ring_step (rcHs c) (rcCv c) (rcM c) (rcDiffs c) (rcPks c) (rcPimg c) rr sr) idx
        ((idx + 1) mod TXN_NUM_INPUTS) ?st = Some (Ok st')" "ring_inv c idx e rr sr (TXN_NUM_INPUTS - 1) st'"
    using ring_loop_rule [OF idx, of "ring_inv c idx e rr sr" ?st] ring_step_inv [OF len] by blast
  obtain es rs ss where "st' = (es, rs, ss)" by (cases st')
  with st' show ?thesis
    using ring_positions [OF idx] by (fastforce simp: ring_inv_def Let_def)
qed

section \<open>Completeness of the signature\<close>

lemma all_some_nth:
  "(\<And>i. i < length xs \<Longrightarrow> xs ! i = Some (f i)) \<Longrightarrow> all_some xs = Some (map f [0..<length xs])"
proof -
  assume "\<And>i. i < length xs \<Longrightarrow> xs ! i = Some (f i)"
  then have "xs = map (\<lambda>i. Some (f i)) [0..<length xs]"
    by (intro nth_equalityI) auto
  then show ?thesis
    using all_some_map_Some [of f "[0..<length xs]"] by simp
qed

text \<open>The verifier's array of challenges holds the followed links.\<close>

lemma es_array:
  assumes "length es = n"
  shows "m < n \<Longrightarrow> length (foldl (\<lambda>es i. es[i + 1 := f i (es ! i)]) es [0..<m]) = n
    \<and> foldl (\<lambda>es i. es[i + 1 := f i (es ! i)]) es [0..<m] ! m = foldl (\<lambda>e i. f i e) (es ! 0) [0..<m]"
proof (induction m)
  case 0
  then show ?case using assms by simp
next
  case (Suc m)
  then show ?case by simp
qed

lemma ozrs_verify_links:
  "ozrs_verify (rcHs c) (rcCv c) (rcM c) (rcDiffs c) (rcPks c) (rcPimg c) e rs ss \<longleftrightarrow>
     e = ring_link c (TXN_NUM_INPUTS - 1) (rs ! (TXN_NUM_INPUTS - 1), ss ! (TXN_NUM_INPUTS - 1))
           (foldl (\<lambda>e i. ring_link c i (rs ! i, ss ! i) e) e [0..<TXN_NUM_INPUTS - 1])"
proof -
  have "TXN_NUM_INPUTS - 1 < TXN_NUM_INPUTS" "(replicate TXN_NUM_INPUTS 0)[0 := e] ! 0 = e"
    by (simp_all add: TXN_NUM_INPUTS_def)
  with es_array [of "(replicate TXN_NUM_INPUTS 0)[0 := e]" TXN_NUM_INPUTS "TXN_NUM_INPUTS - 1"
      "\<lambda>i e. ring_link c i (rs ! i, ss ! i) e"]
  show ?thesis by (simp add: ozrs_verify_def Let_def ring_link_def)
qed

lemma ring_sign_closes:
  assumes c: "ring_ok c idx" and idx: "idx < TXN_NUM_INPUTS"
    and start: "es ! ((idx + 1) mod TXN_NUM_INPUTS) = ring_first c idx k"
    and own: "(rs ! idx, ss ! idx) = ring_answer c idx k (es ! idx)"
    and others: "\<And>i. i < TXN_NUM_INPUTS \<Longrightarrow> i \<noteq> idx \<Longrightarrow>
      es ! ((i + 1) mod TXN_NUM_INPUTS) = ring_link c i (rs ! i, ss ! i) (es ! i)"
  shows "ozrs_verify (rcHs c) (rcCv c) (rcM c) (rcDiffs c) (rcPks c) (rcPimg c) (es ! 0) rs ss"
  unfolding ozrs_verify_links
  using ozrs_ring.ring_closes [of c idx "\<lambda>i. es ! i" k "\<lambda>i. (rs ! i, ss ! i)", OF c idx start own others]
  by simp

lemma ozrs_sign_verifies:
  assumes cv: "curve_ok cv" and idx: "idx < TXN_NUM_INPUTS"
    and len: "TXN_NUM_INPUTS \<le> length diffs" "TXN_NUM_INPUTS \<le> length pks"
    and sk: "0 \<le> sk" "pks ! idx = gen cv sk"
    and d: "diffs ! idx = gen cv (yi - yOut)"
  shows "\<exists>sig rs ss. ozrs_sign hs cv hashM diffs pks sk yi idx yOut k1 k2 rr sr = Some (Ok sig)
    \<and> zPreimage sig = pt (Preimage hs cv (pks ! idx) (Some sk))
    \<and> all_some (zRs sig) = Some rs \<and> all_some (zSs sig) = Some ss
    \<and> ozrs_verify hs cv hashM diffs pks (Preimage hs cv (pks ! idx) (Some sk)) (zE sig) rs ss"
proof -
  define c where "c = \<lparr>rcHs = hs, rcCv = cv, rcM = hashM, rcDiffs = diffs, rcPks = pks,
    rcPimg = Preimage hs cv (pks ! idx) (Some sk), rcZ = (yi - yOut) mod cN cv, rcSk = sk\<rparr>"
  have c: "rcHs c = hs" "rcCv c = cv" "rcM c = hashM" "rcDiffs c = diffs" "rcPks c = pks"
      "rcPimg c = Preimage hs cv (pks ! idx) (Some sk)" "rcZ c = (yi - yOut) mod cN cv" "rcSk c = sk"
    by (simp_all add: c_def)
  have "gen cv (yi - yOut) = gen cv ((yi - yOut) mod cN cv)"
    by (rule gen_cong) simp
  with cv sk d have ok: "ring_ok c idx"
    by (simp add: ring_ok_def c curve_N)
  let ?e = "ring_start hs cv hashM (pks ! idx) (sum_Int k1) (sum_Int k2)"
  obtain es rs ss where loop: "ring_loop (ring_step hs cv hashM diffs pks (rcPimg c) rr sr) idx
        ((idx + 1) mod TXN_NUM_INPUTS)
        ((replicate TXN_NUM_INPUTS 0)[(idx + 1) mod TXN_NUM_INPUTS := ?e],
         replicate TXN_NUM_INPUTS None, replicate TXN_NUM_INPUTS None) = Some (Ok (es, rs, ss))"
    and lens: "length es = TXN_NUM_INPUTS" "length rs = TXN_NUM_INPUTS" "length ss = TXN_NUM_INPUTS"
    and first: "es ! ((idx + 1) mod TXN_NUM_INPUTS) = ?e"
    and others: "\<And>i. i < TXN_NUM_INPUTS \<Longrightarrow> i \<noteq> idx \<Longrightarrow> rs ! i = Some (sum_Int (rr i)) \<and> ss ! i = Some (sum_Int (sr i))
        \<and> es ! ((i + 1) mod TXN_NUM_INPUTS) = ring_link c i (sum_Int (rr i), sum_Int (sr i)) (es ! i)"
    using ring_loop_result [of c idx rr sr ?e] len idx by (auto simp: c)
  define r where "r i = (if i = idx then fst (ring_answer c idx (k1, k2) (es ! idx)) else sum_Int (rr i))" for i
  define s where "s i = (if i = idx then snd (ring_answer c idx (k1, k2) (es ! idx)) else sum_Int (sr i))" for i
  define sig where "sig = \<lparr>zPreimage = pt (Preimage hs cv (pks ! idx) (Some sk)), zE = es ! 0,
     zRs = rs[idx := Some (r idx)], zSs = ss[idx := Some (s idx)]\<rparr>"
  have "ozrs_sign hs cv hashM diffs pks sk yi idx yOut k1 k2 rr sr = Some (Ok sig)"
    using idx len loop by (simp add: ozrs_sign_def Let_def c sig_def r_def s_def ring_answer_def)
  moreover have "all_some (zRs sig) = Some (map r [0..<TXN_NUM_INPUTS])"
    using all_some_nth [of "zRs sig" r] lens others idx by (simp add: sig_def r_def nth_list_update)
  moreover have "all_some (zSs sig) = Some (map s [0..<TXN_NUM_INPUTS])"
    using all_some_nth [of "zSs sig" s] lens others idx by (simp add: sig_def s_def nth_list_update)
  moreover have "ozrs_verify hs cv hashM diffs pks (Preimage hs cv (pks ! idx) (Some sk)) (es ! 0)
      (map r [0..<TXN_NUM_INPUTS]) (map s [0..<TXN_NUM_INPUTS])"
    using ring_sign_closes [OF ok idx, of es "(k1, k2)" "map r [0..<TXN_NUM_INPUTS]" "map s [0..<TXN_NUM_INPUTS]"]
      first others idx by (simp add: c ring_first_def r_def s_def)
  ultimately show ?thesis by (auto simp: sig_def)
qed

section \<open>Balance\<close>

lemma total_commit_gen:
  assumes "curve_ok cv"
  shows "total_commit cv (map (gen cv) cs) fee = gen cv (sum_list cs + 11235 * uint fee)"
proof -
  have "foldl (cAdd cv) (gen cv a) (map (gen cv) cs) = gen cv (a + sum_list cs)" for a
    using assms by (induction cs arbitrary: a) (simp_all add: curve_simps add.assoc)
  from this [of 0] assms show ?thesis
    by (simp add: total_commit_def Let_def gen_0 PedersenSum_gen cAdd_gen)
qed

lemma commitDifferences_gen:
  assumes "curve_ok cv" "i < length ics" "ics ! i = gen cv ci"
  shows "commitDifferences cv (map (gen cv) cs) fee ics ! i = gen cv (ci - (sum_list cs + 11235 * uint fee))"
  using assms by (simp add: commitDifferences_def Let_def total_commit_gen cAdd_pneg_gen)

lemma length_commitDifferences [simp]: "length (commitDifferences cv commits fee ics) = length ics"
  by (simp add: commitDifferences_def Let_def)

lemma OZRSSign_verifies:
  assumes cv: "curve_ok cv" and idx: "idx < TXN_NUM_INPUTS"
    and len: "TXN_NUM_INPUTS \<le> length ics" "TXN_NUM_INPUTS \<le> length pks"
    and sk: "0 \<le> sk" "pks ! idx = gen cv sk"
    and outs: "out_commits (tbOutputs (txBody txn)) = Some (map (gen cv) cs)"
    and ci: "ics ! idx = gen cv ci"
    and bal: "(ci - (sum_list cs + 11235 * uint (tbFee (txBody txn)))) mod P256_N = (yi - yOut) mod P256_N"
  shows "\<exists>sig. OZRSSign hs cv encB txn pks ics sk yi idx yOut k1 k2 rr sr = Some (Ok (txn\<lparr>txSig := sig\<rparr>))
    \<and> zPreimage sig = pt (Preimage hs cv (pks ! idx) (Some sk))
    \<and> VerifyOZRS hs cv encB (txn\<lparr>txSig := sig\<rparr>) pks ics = Ok True"
proof -
  let ?diffs = "commitDifferences cv (map (gen cv) cs) (tbFee (txBody txn)) ics"
  have "?diffs ! idx = gen cv (ci - (sum_list cs + 11235 * uint (tbFee (txBody txn))))"
    using commitDifferences_gen [OF cv _ ci] idx len by simp
  also have "\<dots> = gen cv (yi - yOut)"
    using bal cv by (intro gen_cong) (simp add: curve_N)
  finally show ?thesis
    using ozrs_sign_verifies [OF cv idx _ len(2) sk, of ?diffs yi yOut hs "hs (encB (txBody txn))" k1 k2 rr sr] len outs
    by (auto simp: OZRSSign_def VerifyOZRS_def Let_def)
qed

end
