(* ===== verification/Txns.thy ===== *)
theory Txns
  imports Ozrs
begin

text \<open>
  \<^verbatim>\<open>txn.go\<close>: building payments and coinbase transactions, and the validations that need
  no storage; with \<^verbatim>\<open>CoinbaseValue\<close> of \<^verbatim>\<open>chain.go\<close>.  \<open>encT\<close> and
  \<open>encB\<close> are \<^verbatim>\<open>json.Marshal\<close> on a transaction and on its body, \<open>encO\<close> on
  an output.
\<close>

section \<open>Block rewards\<close>

definition CoinbaseValue :: "u64 \<Rightarrow> u64" where
  "CoinbaseValue seqnum = drop_bit (unat (seqnum div 21000)) (50 * 100000000)"

lemma unat_CoinbaseValue: "unat (CoinbaseValue s) = 5000000000 div 2 ^ (unat s div 21000)"
  unfolding CoinbaseValue_def unat_drop_bit_eq by (simp add: drop_bit_eq_div unat_div)

section \<open>Outputs\<close>

text \<open>What \<^verbatim>\<open>BuildOutputs\<close> draws for one output: \<open>r\<close>, \<open>q\<close> and the range proof's scalars.\<close>

record out_draws =
  drR :: SHA256Sum
  drQ :: SHA256Sum
  drKs :: "nat \<Rightarrow> SHA256Sum"
  drS0 :: "nat \<Rightarrow> SHA256Sum"
  drS1 :: "nat \<Rightarrow> SHA256Sum"

text \<open>The one-time destination key for a recipient: \<open>H(r * TPK) * G + PPK\<close>.\<close>

definition dest_key :: "(bytes \<Rightarrow> SHA256Sum) \<Rightarrow> curve \<Rightarrow> point \<Rightarrow> point \<Rightarrow> SHA256Sum \<Rightarrow> point" where
  "dest_key hs cv tpk ppk r =
     (let sec = cMul cv tpk (sum_bytes r); h = hs (point_Bytes sec)
      in cAdd cv (cBase cv (sum_bytes h)) ppk)"

definition build_output :: "(bytes \<Rightarrow> SHA256Sum) \<Rightarrow> curve \<Rightarrow> u64 \<Rightarrow> WalletPublicKey \<Rightarrow> out_draws \<Rightarrow> (Output \<times> int) res" where
  "build_output hs cv amt rcpt d =
     res_bind (deref (coords (TPK rcpt))) (\<lambda>tpk. res_bind (deref (coords (PPK rcpt))) (\<lambda>ppk.
       let pk = cBase cv (sum_bytes (drR d));
           dk = dest_key hs cv tpk ppk (drR d);
           qG = cBase cv (sum_bytes (drQ d));
           qB = cMul cv ppk (sum_bytes (drQ d));
           blind = hs (point_Bytes qB);
           commit = RangeCommit hs cv amt (sum_Int blind) (drKs d) (drS0 d) (drS1 d)
       in Ok (\<lparr>oPublicKey = pt pk, oDestKey = pt dk, oBlindSeed = pt qG, oCommit = store_commit commit\<rparr>,
              sum_Int blind)))"

fun build_loop :: "(bytes \<Rightarrow> SHA256Sum) \<Rightarrow> curve \<Rightarrow> WalletPublicKey list \<Rightarrow> (nat \<Rightarrow> out_draws) \<Rightarrow> nat
    \<Rightarrow> u64 list \<Rightarrow> Output list \<Rightarrow> int \<Rightarrow> (Output list \<times> int) res" where
  "build_loop hs cv rcpts dr i [] outputs blindSum = Ok (outputs, blindSum)"
| "build_loop hs cv rcpts dr i (amt # amts) outputs blindSum =
     res_bind (at rcpts i) (\<lambda>rcpt. res_bind (build_output hs cv amt rcpt (dr i)) (\<lambda>(out, blind).
       build_loop hs cv rcpts dr (Suc i) amts (outputs @ [out]) ((blindSum + blind) mod cN cv)))"

definition BuildOutputs :: "(bytes \<Rightarrow> SHA256Sum) \<Rightarrow> curve \<Rightarrow> u64 list \<Rightarrow> WalletPublicKey list
    \<Rightarrow> (nat \<Rightarrow> out_draws) \<Rightarrow> (Output list \<times> int) res" where
  "BuildOutputs hs cv amts rcpts dr = build_loop hs cv rcpts dr 0 amts [] 0"

section \<open>New transactions\<close>

text \<open>
  \<^verbatim>\<open>NewTxn\<close>: the slices are pointers here (a nil one gives the nil transaction, the inner
  \<open>None\<close>); the outer \<open>None\<close> would be a call that never returns.  Ring members beyond
  the eighth are never read, so only the keys of the first eight have to be present.
\<close>

definition NewTxn :: "(bytes \<Rightarrow> SHA256Sum) \<Rightarrow> curve \<Rightarrow> (Output \<Rightarrow> bytes) \<Rightarrow> (TxnBody \<Rightarrow> bytes) \<Rightarrow> Output list option
    \<Rightarrow> int \<Rightarrow> int \<Rightarrow> int \<Rightarrow> u64 list option \<Rightarrow> WalletPublicKey list option \<Rightarrow> u64 \<Rightarrow> (nat \<Rightarrow> out_draws)
    \<Rightarrow> SHA256Sum \<Rightarrow> SHA256Sum \<Rightarrow> (nat \<Rightarrow> SHA256Sum) \<Rightarrow> (nat \<Rightarrow> SHA256Sum) \<Rightarrow> Txn option res option" where
  "NewTxn hs cv encO encB inputs sk yi idx amts rcpts fee dr k1 k2 rr sr =
     (case (inputs, amts, rcpts) of
        (Some ins, Some as, Some rs) \<Rightarrow>
          if idx < 0 \<or> idx \<ge> int TXN_NUM_INPUTS then Some (Ok None)
          else
            (case BuildOutputs hs cv as rs dr of
               Err e \<Rightarrow> Some (Err e)
             | Panic \<Rightarrow> Some Panic
             | Ok (outputs, blindSum) \<Rightarrow>
                 (let hashes = map (Output_Hash hs encO) ins;
                      txn = \<lparr>txBody = \<lparr>tbInputs = hashes, tbOutputs = outputs, tbFee = fee\<rparr>, txSig = nil_sig\<rparr>
                  in case (all_some (map (\<lambda>inp. coords (oDestKey inp)) (take TXN_NUM_INPUTS ins)),
                           all_some (map (\<lambda>inp. coords (cmPt (oCommit inp))) ins)) of
                       (Some pks, Some ics) \<Rightarrow>
                         map_option (\<lambda>m. res_bind m (\<lambda>t. Ok (Some t)))
                           (OZRSSign hs cv encB txn pks ics sk yi (nat idx) blindSum k1 k2 rr sr)
                     | _ \<Rightarrow> Some Panic))
      | _ \<Rightarrow> Some (Ok None))"

text \<open>The range proof of a coinbase output: zero responses, nil keys.\<close>

definition zero_proof :: RangeProof where
  "zero_proof = \<lparr>rpE = 0, rpSs = replicate RANGE_PROOF_LENGTH (Some 0, Some 0),
     rpPKs = replicate RANGE_PROOF_LENGTH (nil_pt, nil_pt)\<rparr>"

definition zero_sig :: OZRS where
  "zero_sig = \<lparr>zPreimage = nil_pt, zE = 0, zRs = replicate TXN_NUM_INPUTS (Some 0), zSs = replicate TXN_NUM_INPUTS (Some 0)\<rparr>"

definition NewCoinbaseTxn :: "(bytes \<Rightarrow> SHA256Sum) \<Rightarrow> curve \<Rightarrow> WalletPublicKey \<Rightarrow> u64 \<Rightarrow> u64 \<Rightarrow> SHA256Sum \<Rightarrow> Txn res" where
  "NewCoinbaseTxn hs cv address seqNum fee r =
     (let coinbase = CoinbaseValue seqNum + fee;
          commit = PedersenSum cv (int_be 0) (UIntBytes coinbase);
          rG = cBase cv (sum_bytes r)
      in res_bind (deref (coords (TPK address))) (\<lambda>tpk. res_bind (deref (coords (PPK address))) (\<lambda>ppk.
           let dk = dest_key hs cv tpk ppk r
           in Ok \<lparr>txBody = \<lparr>tbInputs = [0],
                    tbOutputs = [\<lparr>oPublicKey = pt rG, oDestKey = pt dk, oBlindSeed = pt (0, 0),
                                  oCommit = \<lparr>cmPt = pt commit, cmProof = zero_proof\<rparr>\<rparr>],
                    tbFee = 0\<rparr>,
                  txSig = zero_sig\<rparr>)))"

section \<open>Validation without storage\<close>

definition MAX_BLOCK_SIZE :: nat where
  "MAX_BLOCK_SIZE = 2 * 1024 * 1024 * 1024"

definition missing_data :: "Output \<Rightarrow> bool" where
  "missing_data o1 \<longleftrightarrow> ECCPoint_Empty (oPublicKey o1) \<or> ECCPoint_Empty (oDestKey o1)
     \<or> ECCPoint_Empty (oBlindSeed o1) \<or> ECCPoint_Empty (cmPt (oCommit o1))"

definition ValidTxn :: "(Txn \<Rightarrow> bytes) \<Rightarrow> Txn \<Rightarrow> bool" where
  "ValidTxn encT txn =
     (if length (tbInputs (txBody txn)) \<noteq> TXN_NUM_INPUTS then False
      else if length (tbOutputs (txBody txn)) \<noteq> TXN_NUM_OUTPUTS then False
      else if length (encT txn) \<ge> MAX_BLOCK_SIZE then False
      else \<not> list_ex missing_data (tbOutputs (txBody txn)))"

definition ValidCoinbaseTxn :: "(Txn \<Rightarrow> bytes) \<Rightarrow> Txn \<Rightarrow> bool" where
  "ValidCoinbaseTxn encT txn =
     (if length (tbInputs (txBody txn)) \<noteq> 1 then False
      else if tbInputs (txBody txn) ! 0 \<noteq> 0 then False
      else if length (tbOutputs (txBody txn)) \<noteq> 1 then False
      else if length (encT txn) \<ge> MAX_BLOCK_SIZE then False
      else \<not> missing_data (tbOutputs (txBody txn) ! 0))"

text \<open>\<^verbatim>\<open>ValidTxns\<close>: the first transaction is the coinbase.\<close>

fun valid_from :: "(Txn \<Rightarrow> bytes) \<Rightarrow> nat \<Rightarrow> Txn list \<Rightarrow> bool" where
  "valid_from encT i [] = True"
| "valid_from encT i (txn # txns) =
     (if i = 0 then (if \<not> ValidCoinbaseTxn encT txn then False else valid_from encT (Suc i) txns)
      else (if \<not> ValidTxn encT txn then False else valid_from encT (Suc i) txns))"

definition ValidTxns :: "(Txn \<Rightarrow> bytes) \<Rightarrow> Txn list \<Rightarrow> bool" where
  "ValidTxns encT txns = valid_from encT 0 txns"

definition VerifyCoinbaseTxn :: "curve \<Rightarrow> Txn \<Rightarrow> u64 \<Rightarrow> bool res" where
  "VerifyCoinbaseTxn cv txn coinbase =
     (let c = cMul cv (H_pt cv) (UIntBytes coinbase)
      in res_bind (at (tbOutputs (txBody txn)) 0) (\<lambda>o1. res_bind (deref (coords (cmPt (oCommit o1)))) (\<lambda>commit.
           let xy = cAdd cv commit (pneg c) in Ok (fst xy = 0 \<and> snd xy = 0))))"

lemma valid_from_Suc: "valid_from encT (Suc i) txns \<longleftrightarrow> list_all (ValidTxn encT) txns"
  by (induction txns arbitrary: i) auto

lemma ValidTxns_Cons:
  "ValidTxns encT (txn # txns) \<longleftrightarrow> ValidCoinbaseTxn encT txn \<and> list_all (ValidTxn encT) txns"
  by (simp add: ValidTxns_def valid_from_Suc)

text \<open>A valid transaction of either kind has outputs whose points are all present.\<close>

lemma ValidTxn_outputs: "ValidTxn encT txn \<Longrightarrow> o1 \<in> set (tbOutputs (txBody txn)) \<Longrightarrow> \<not> missing_data o1"
  by (auto simp: ValidTxn_def list_ex_iff split: if_splits)

lemma ValidTxn_not_coinbase: "ValidTxn encT txn \<Longrightarrow> \<not> ValidCoinbaseTxn encT txn"
  by (auto simp: ValidTxn_def ValidCoinbaseTxn_def TXN_NUM_INPUTS_def split: if_splits)

section \<open>Built outputs as group elements\<close>

lemma dest_key_gen:
  "curve_ok cv \<Longrightarrow> dest_key hs cv (gen cv a) (gen cv b) r =
     gen cv (uint (hs (point_Bytes (gen cv (a * uint r)))) + b)"
  by (simp add: dest_key_def Let_def curve_simps)

definition built :: "(bytes \<Rightarrow> SHA256Sum) \<Rightarrow> curve \<Rightarrow> u64 \<Rightarrow> int \<Rightarrow> int \<Rightarrow> out_draws \<Rightarrow> Output \<Rightarrow> int \<Rightarrow> bool" where
  "built hs cv amt a b d out blind \<longleftrightarrow>
     oPublicKey out = pt (gen cv (uint (drR d)))
   \<and> oDestKey out = pt (gen cv (uint (hs (point_Bytes (gen cv (a * uint (drR d))))) + b))
   \<and> oBlindSeed out = pt (gen cv (uint (drQ d)))
   \<and> oCommit out = store_commit (RangeCommit hs cv amt blind (drKs d) (drS0 d) (drS1 d))
   \<and> blind = uint (hs (point_Bytes (gen cv (b * uint (drQ d)))))"

lemma build_output_gen:
  assumes "curve_ok cv" "TPK rcpt = pt (gen cv a)" "PPK rcpt = pt (gen cv b)"
  shows "\<exists>out blind. build_output hs cv amt rcpt d = Ok (out, blind) \<and> built hs cv amt a b d out blind"
  using assms by (simp add: build_output_def built_def dest_key_gen curve_simps Let_def)

lemma built_commit:
  assumes "curve_ok cv" "built hs cv amt a b d out blind"
  shows "coords (cmPt (oCommit out)) = Some (gen cv (blind + 11235 * uint (take_bit RANGE_PROOF_LENGTH amt)))"
    and "RangeProof_Verify hs cv (cmProof (oCommit out)) = Ok True" and "\<not> missing_data out" and "0 \<le> blind"
  using assms rp_verify_RangeSign [OF assms(1)]
  by (simp_all add: built_def store_commit_def RangeCommit_gen missing_data_def RangeProof_Verify_def)
    (simp add: RangeCommit_def Let_def)

text \<open>A public key whose points are multiples of the base point.\<close>

definition good_rcpt :: "curve \<Rightarrow> WalletPublicKey \<Rightarrow> bool" where
  "good_rcpt cv rcpt \<longleftrightarrow> (\<exists>a b. TPK rcpt = pt (gen cv a) \<and> PPK rcpt = pt (gen cv b))"

definition good_output :: "(bytes \<Rightarrow> SHA256Sum) \<Rightarrow> curve \<Rightarrow> u64 \<Rightarrow> Output \<Rightarrow> int \<Rightarrow> bool" where
  "good_output hs cv amt out blind \<longleftrightarrow>
     coords (cmPt (oCommit out)) = Some (gen cv (blind + 11235 * uint (take_bit RANGE_PROOF_LENGTH amt)))
   \<and> RangeProof_Verify hs cv (cmProof (oCommit out)) = Ok True \<and> \<not> missing_data out"

lemma build_loop_good:
  assumes cv: "curve_ok cv" and rcpts: "\<And>k. k < length amts \<Longrightarrow> i + k < length rcpts \<and> good_rcpt cv (rcpts ! (i + k))"
  shows "\<exists>outs blinds bs. build_loop hs cv rcpts dr i amts outputs blindSum = Ok (outputs @ outs, bs)
    \<and> length outs = length amts \<and> length blinds = length amts
    \<and> (\<forall>k < length amts. good_output hs cv (amts ! k) (outs ! k) (blinds ! k))
    \<and> bs mod P256_N = (blindSum + sum_list blinds) mod P256_N"
  using rcpts
proof (induction amts arbitrary: i outputs blindSum)
  case Nil
  then show ?case by simp
next
  case (Cons amt amts)
  from Cons.prems [of 0] obtain a b where i: "i < length rcpts"
    and ab: "TPK (rcpts ! i) = pt (gen cv a)" "PPK (rcpts ! i) = pt (gen cv b)"
    by (auto simp: good_rcpt_def)
  obtain out blind where out: "build_output hs cv amt (rcpts ! i) (dr i) = Ok (out, blind)"
    "built hs cv amt a b (dr i) out blind"
    using build_output_gen [OF cv ab] by blast
  have "\<And>k. k < length amts \<Longrightarrow> Suc i + k < length rcpts \<and> good_rcpt cv (rcpts ! (Suc i + k))"
    using Cons.prems by fastforce
  then obtain outs blinds bs where rest:
    "build_loop hs cv rcpts dr (Suc i) amts (outputs @ [out]) ((blindSum + blind) mod cN cv) = Ok ((outputs @ [out]) @ outs, bs)"
    "length outs = length amts" "length blinds = length amts"
    "\<forall>k < length amts. good_output hs cv (amts ! k) (outs ! k) (blinds ! k)"
    "bs mod P256_N = ((blindSum + blind) mod cN cv + sum_list blinds) mod P256_N"
    using Cons.IH [of "Suc i" "outputs @ [out]" "(blindSum + blind) mod cN cv"] by blast
  have "good_output hs cv amt out blind"
    using built_commit [OF cv out(2)] by (simp add: good_output_def)
  with i out(1) rest show ?case
    by (intro exI [of _ "out # outs"] exI [of _ "blind # blinds"] exI [of _ bs])
      (auto simp: curve_N [OF cv] nth_Cons' mod_simps add.assoc)
qed

lemma length_build_loop:
  "build_loop hs cv rcpts dr i amts outputs bs = Ok (outs, bs') \<Longrightarrow> length outs = length outputs + length amts"
  by (induction amts arbitrary: i outputs bs) (auto simp: res_bind_eq_Ok)

lemma BuildOutputs_good:
  assumes "curve_ok cv" "length amts \<le> length rcpts" "\<And>rc. rc \<in> set rcpts \<Longrightarrow> good_rcpt cv rc"
  shows "\<exists>outs blinds bs. BuildOutputs hs cv amts rcpts dr = Ok (outs, bs)
    \<and> length outs = length amts \<and> length blinds = length amts
    \<and> (\<forall>k < length amts. good_output hs cv (amts ! k) (outs ! k) (blinds ! k))
    \<and> bs mod P256_N = sum_list blinds mod P256_N"
  using build_loop_good [OF assms(1), of amts 0 rcpts hs dr "[]" 0] assms(2,3)
  by (auto simp: BuildOutputs_def)

section \<open>Value carried by a transaction\<close>

lemma sum_list_commit:
  "length blinds = length amts \<Longrightarrow>
     sum_list (map (\<lambda>k. blinds ! k + 11235 * uint (take_bit RANGE_PROOF_LENGTH (amts ! k))) [0..<length amts])
     = sum_list blinds + 11235 * sum_list (map (\<lambda>a. uint (take_bit RANGE_PROOF_LENGTH a)) amts)"
proof -
  assume len: "length blinds = length amts"
  have "sum_list (map (\<lambda>k. blinds ! k + 11235 * uint (take_bit RANGE_PROOF_LENGTH (amts ! k))) [0..<length amts])
    = sum_list (map (\<lambda>k. blinds ! k) [0..<length amts])
      + 11235 * sum_list (map (\<lambda>k. uint (take_bit RANGE_PROOF_LENGTH (amts ! k))) [0..<length amts])"
    by (simp add: sum_list_addf sum_list_const_mult)
  also have "map (\<lambda>k. blinds ! k) [0..<length amts] = blinds"
    using len by (metis map_nth)
  also have "map (\<lambda>k. uint (take_bit RANGE_PROOF_LENGTH (amts ! k))) [0..<length amts] =
      map (\<lambda>a. uint (take_bit RANGE_PROOF_LENGTH a)) amts"
    by (rule nth_equalityI) auto
  finally show ?thesis .
qed

lemma out_commits_good:
  assumes "length outs = length amts" "\<forall>k < length amts. good_output hs cv (amts ! k) (outs ! k) (blinds ! k)"
  shows "out_commits outs = Some (map (gen cv)
    (map (\<lambda>k. blinds ! k + 11235 * uint (take_bit RANGE_PROOF_LENGTH (amts ! k))) [0..<length amts]))"
proof -
  let ?f = "\<lambda>k. gen cv (blinds ! k + 11235 * uint (take_bit RANGE_PROOF_LENGTH (amts ! k)))"
  have "all_some (map (\<lambda>o1. coords (cmPt (oCommit o1))) outs) = Some (map ?f [0..<length outs])"
    using all_some_nth [of "map (\<lambda>o1. coords (cmPt (oCommit o1))) outs" ?f] assms
    by (simp add: good_output_def)
  then show ?thesis
    using assms(1) by (simp add: out_commits_def comp_def)
qed

lemma small_amounts:
  assumes "\<And>a. a \<in> set amts \<Longrightarrow> a < 2 ^ 34"
  shows "sum_list (map (\<lambda>a. uint (take_bit RANGE_PROOF_LENGTH a)) amts) = int (sum_list (map unat amts))"
  using assms
proof (induction amts)
  case Nil
  then show ?case by simp
next
  case (Cons a amts)
  then have "take_bit RANGE_PROOF_LENGTH a = a"
    using take_bit_eq_mod [of 34 a] by (simp add: RANGE_PROOF_LENGTH_def mod_word_less)
  with Cons show ?case by simp
qed

lemma all_some_take: "all_some xs = Some ys \<Longrightarrow> all_some (take n xs) = Some (take n ys)"
  by (induction xs arbitrary: n ys) (auto simp: take_Cons split: option.splits nat.splits)

lemma all_some_length: "all_some xs = Some ys \<Longrightarrow> length ys = length xs"
  by (induction xs arbitrary: ys) (auto split: option.splits)

lemma all_some_eq_nth: "all_some xs = Some ys \<Longrightarrow> i < length xs \<Longrightarrow> xs ! i = Some (ys ! i)"
  by (induction xs arbitrary: ys i) (auto simp: nth_Cons split: option.splits nat.splits)

lemma NewTxn_preimage:
  assumes "NewTxn hs cv encO encB (Some ins) sk yi idx amts rcpts fee dr k1 k2 rr sr = Some (Ok (Some txn))"
    and "all_some (map (\<lambda>inp. coords (oDestKey inp)) ins) = Some pks" "8 \<le> length ins"
  shows "zPreimage (txSig txn) = pt (Preimage hs cv (pks ! nat idx) (Some sk))"
proof -
  have pks: "all_some (map (\<lambda>inp. coords (oDestKey inp)) (take 8 ins)) = Some (take 8 pks)"
    using all_some_take [OF assms(2), of 8] by (simp add: take_map)
  have "length pks = length ins" using all_some_length [OF assms(2)] by simp
  with assms(1,3) show ?thesis
    by (auto simp: NewTxn_def OZRSSign_def ozrs_sign_def res_bind_eq_Ok Let_def at_def pks TXN_NUM_INPUTS_def
        split: option.splits if_splits res.splits prod.splits)
qed

lemma NewTxn_outputs:
  assumes "NewTxn hs cv encO encB (Some ins) sk yi idx (Some amts) (Some rcpts) fee dr k1 k2 rr sr = Some (Ok (Some txn))"
  shows "\<exists>bs. BuildOutputs hs cv amts rcpts dr = Ok (tbOutputs (txBody txn), bs)"
  using assms
  by (auto simp: NewTxn_def OZRSSign_def res_bind_eq_Ok Let_def split: option.splits if_splits res.splits prod.splits)

lemma NewTxn_inputs:
  assumes "NewTxn hs cv encO encB (Some ins) sk yi idx amts rcpts fee dr k1 k2 rr sr = Some (Ok (Some txn))"
  shows "tbInputs (txBody txn) = map (Output_Hash hs encO) ins"
  using assms
  by (auto simp: NewTxn_def OZRSSign_def res_bind_eq_Ok Let_def split: option.splits if_splits res.splits prod.splits)

lemma commit_gap_small:
  fixes a b :: int
  assumes "0 \<le> a" "a < 2 ^ 64" "0 \<le> b" "b < 2 ^ 64"
  shows "\<bar>11235 * a - 11235 * b\<bar> < P256_N"
  using assms by (simp add: P256_N_def abs_less_iff)

lemma NewCoinbaseTxn_exact:
  assumes "curve_ok cv" and "good_rcpt cv addr"
  shows "\<exists>txn. NewCoinbaseTxn hs cv addr seqNum fee r = Ok txn
    \<and> VerifyCoinbaseTxn cv txn claimed = Ok (claimed = CoinbaseValue seqNum + fee)
    \<and> (ValidCoinbaseTxn encT txn \<longleftrightarrow> length (encT txn) < MAX_BLOCK_SIZE)"
proof -
  obtain a b where ab: "TPK addr = pt (gen cv a)" "PPK addr = pt (gen cv b)"
    using assms(2) by (auto simp: good_rcpt_def)
  let ?v = "CoinbaseValue seqNum + fee"
  obtain txn where txn: "NewCoinbaseTxn hs cv addr seqNum fee r = Ok txn"
    "tbInputs (txBody txn) = [0]"
    "\<exists>out. tbOutputs (txBody txn) = [out] \<and> \<not> missing_data out
      \<and> coords (cmPt (oCommit out)) = Some (gen cv (11235 * uint ?v))"
    by (simp add: NewCoinbaseTxn_def Let_def ab missing_data_def PedersenSum_gen [OF assms(1)])
  have "gen cv (11235 * uint ?v - 11235 * uint claimed) = (0, 0) \<longleftrightarrow> claimed = ?v"
  proof -
    have "\<bar>11235 * uint ?v - 11235 * uint claimed\<bar> < P256_N"
      using commit_gap_small [of "uint ?v" "uint claimed"] uint_lt2p [of ?v] uint_lt2p [of claimed] by simp
    then have "(11235 * uint ?v - 11235 * uint claimed) mod P256_N = 0 \<longleftrightarrow> 11235 * uint ?v - 11235 * uint claimed = 0"
      by (metis dvd_imp_le_int mod_0 mod_0_imp_dvd abs_of_pos P256_N_pos(1) not_less)
    then show ?thesis
      using gen_eq_zero_iff [OF assms(1)] word_uint_eq_iff [of claimed ?v] by (simp only:) linarith
  qed
  with txn show ?thesis
    by (auto simp: VerifyCoinbaseTxn_def Let_def H_pt_gen [OF assms(1)] cMul_gen [OF assms(1)]
        cAdd_pneg_gen [OF assms(1)] ValidCoinbaseTxn_def prod_eq_iff)
qed

lemma NewTxn_good:
  assumes cv: "curve_ok cv" and idx: "0 \<le> idx" "idx < 8"
    and ring: "8 \<le> length ins"
      "all_some (map (\<lambda>inp. coords (oDestKey inp)) ins) = Some pks"
      "all_some (map (\<lambda>inp. coords (cmPt (oCommit inp))) ins) = Some ics"
    and own: "0 \<le> sk" "pks ! nat idx = cBase cv (int_be sk)"
      "0 \<le> yi" "ics ! nat idx = PedersenSum cv (int_be yi) (nat_be vin)"
    and rcpts: "length amts \<le> length rcpts" "\<And>rc. rc \<in> set rcpts \<Longrightarrow> good_rcpt cv rc"
    and amts: "\<And>a. a \<in> set amts \<Longrightarrow> a < 2 ^ 34" "vin = sum_list (map unat amts) + unat fee"
  shows "\<exists>txn. NewTxn hs cv encO encB (Some ins) sk yi idx (Some amts) (Some rcpts) fee dr k1 k2 rr sr = Some (Ok (Some txn))
    \<and> VerifyOZRS hs cv encB txn (take 8 pks) ics = Ok True
    \<and> tbInputs (txBody txn) = map (Output_Hash hs encO) ins \<and> tbFee (txBody txn) = fee
    \<and> length (tbOutputs (txBody txn)) = length amts
    \<and> (\<forall>o1 \<in> set (tbOutputs (txBody txn)). RangeProof_Verify hs cv (cmProof (oCommit o1)) = Ok True)"
proof -
  obtain outs blinds bs where build: "BuildOutputs hs cv amts rcpts dr = Ok (outs, bs)"
    and lens: "length outs = length amts" "length blinds = length amts"
    and good: "\<forall>k < length amts. good_output hs cv (amts ! k) (outs ! k) (blinds ! k)"
    and bs: "bs mod P256_N = sum_list blinds mod P256_N"
    using BuildOutputs_good [OF cv rcpts(1)] rcpts(2) by blast
  let ?cs = "map (\<lambda>k. blinds ! k + 11235 * uint (take_bit RANGE_PROOF_LENGTH (amts ! k))) [0..<length amts]"
  let ?body = "\<lparr>tbInputs = map (Output_Hash hs encO) ins, tbOutputs = outs, tbFee = fee\<rparr>"
  let ?txn = "\<lparr>txBody = ?body, txSig = nil_sig\<rparr>"
  have bal: "(yi + 11235 * int vin - (sum_list ?cs + 11235 * uint fee)) mod P256_N = (yi - bs) mod P256_N"
  proof -
    have "sum_list ?cs = sum_list blinds + 11235 * int (sum_list (map unat amts))"
      using sum_list_commit [OF lens(2)] small_amounts [OF amts(1)] by simp
    then have "yi + 11235 * int vin - (sum_list ?cs + 11235 * uint fee) = yi - sum_list blinds"
      by (simp add: amts(2) algebra_simps)
    then show ?thesis using bs by (metis mod_diff_right_eq)
  qed
  have nidx: "nat idx < 8" using idx by linarith
  obtain sig where sig: "OZRSSign hs cv encB ?txn (take 8 pks) ics sk yi (nat idx) bs k1 k2 rr sr = Some (Ok (?txn\<lparr>txSig := sig\<rparr>))"
    "VerifyOZRS hs cv encB (?txn\<lparr>txSig := sig\<rparr>) (take 8 pks) ics = Ok True"
    using OZRSSign_verifies [OF cv _ _ _ own(1), of "nat idx" ics "take 8 pks" ?txn ?cs "yi + 11235 * int vin" yi bs hs encB k1 k2 rr sr]
      bal nidx own out_commits_good [OF lens(1) good] ring all_some_length [OF ring(2)] all_some_length [OF ring(3)]
    by (auto simp: TXN_NUM_INPUTS_def cBase_gen [OF cv] PedersenSum_gen [OF cv])
  have "all_some (map (\<lambda>inp. coords (oDestKey inp)) (take TXN_NUM_INPUTS ins)) = Some (take 8 pks)"
    using all_some_take [OF ring(2), of 8] by (simp add: TXN_NUM_INPUTS_def take_map)
  with sig build idx ring(3) have "NewTxn hs cv encO encB (Some ins) sk yi idx (Some amts) (Some rcpts) fee dr k1 k2 rr sr
      = Some (Ok (Some (?txn\<lparr>txSig := sig\<rparr>)))"
    by (simp add: NewTxn_def TXN_NUM_INPUTS_def)
  moreover have "\<forall>o1 \<in> set outs. RangeProof_Verify hs cv (cmProof (oCommit o1)) = Ok True"
    using good lens(1) by (auto simp: in_set_conv_nth good_output_def)
  ultimately show ?thesis using sig lens(1) by auto
qed

section \<open>Properties\<close>

text \<open>
  C2: A payment made by \<^verbatim>\<open>NewTxn\<close> from a ring of at least eight outputs is accepted.  If the
  caller holds the key and the blinding factor of the input at \<open>idx\<close> and that input's value is
  exactly the sum of the amounts and the fee (each amount below \<open>2^34\<close>), the call returns a
  transaction whose ring signature verifies against the ring, and all of whose range proofs verify.
\<close>

theorem new_txn_verifies:
  assumes cv: "curve_ok cv" and idx: "0 \<le> idx" "idx < 8"
    and ring: "8 \<le> length ins"
      "all_some (map (\<lambda>inp. coords (oDestKey inp)) ins) = Some pks"
      "all_some (map (\<lambda>inp. coords (cmPt (oCommit inp))) ins) = Some ics"
    and own: "0 \<le> sk" "pks ! nat idx = cBase cv (int_be sk)"
      "0 \<le> yi" "ics ! nat idx = PedersenSum cv (int_be yi) (nat_be vin)"
    and rcpts: "length amts \<le> length rcpts" "\<And>rc. rc \<in> set rcpts \<Longrightarrow> good_rcpt cv rc"
    and amts: "\<And>a. a \<in> set amts \<Longrightarrow> a < 2 ^ 34" "vin = sum_list (map unat amts) + unat fee"
  shows "\<exists>txn. NewTxn hs cv encO encB (Some ins) sk yi idx (Some amts) (Some rcpts) fee dr k1 k2 rr sr = Some (Ok (Some txn))
    \<and> VerifyOZRS hs cv encB txn (take 8 pks) ics = Ok True
    \<and> tbInputs (txBody txn) = map (Output_Hash hs encO) ins \<and> tbFee (txBody txn) = fee
    \<and> length (tbOutputs (txBody txn)) = length amts
    \<and> (\<forall>o1 \<in> set (tbOutputs (txBody txn)). RangeProof_Verify hs cv (cmProof (oCommit o1)) = Ok True)"
  using assms by (rule NewTxn_good)

definition demo_output :: Output where
  "demo_output = \<lparr>oPublicKey = nil_pt, oDestKey = pt (cBase log_curve (int_be 5)), oBlindSeed = nil_pt,
     oCommit = \<lparr>cmPt = pt (PedersenSum log_curve (int_be 3) (nat_be 10)), cmProof = zero_proof\<rparr>\<rparr>"

definition demo_rcpt :: WalletPublicKey where
  "demo_rcpt = \<lparr>TPK = pt (gen log_curve 11), PPK = pt (gen log_curve 13)\<rparr>"

definition demo_draws :: out_draws where
  "demo_draws = \<lparr>drR = 2, drQ = 3, drKs = of_nat, drS0 = of_nat, drS1 = of_nat\<rparr>"

lemma good_demo_rcpt: "good_rcpt log_curve demo_rcpt"
  unfolding good_rcpt_def demo_rcpt_def by auto

lemma all_some_demo:
  "all_some (map (\<lambda>inp. coords (oDestKey inp)) (replicate 8 demo_output)) = Some (replicate 8 (cBase log_curve (int_be 5)))"
  "all_some (map (\<lambda>inp. coords (cmPt (oCommit inp))) (replicate 8 demo_output))
    = Some (replicate 8 (PedersenSum log_curve (int_be 3) (nat_be 10)))"
  by (simp_all add: demo_output_def numeral_eq_Suc)

lemma demo_payment:
  assumes "\<And>a. a \<in> set amts \<Longrightarrow> a < 2 ^ 34" "10 = sum_list (map unat amts) + unat (1 :: u64)"
    and "length amts \<le> length rcpts" "set rcpts \<subseteq> {demo_rcpt}"
  shows "\<exists>txn. NewTxn (\<lambda>bs. 7) log_curve (\<lambda>o1. []) (\<lambda>b. []) (Some (replicate 8 demo_output)) 5 3 6 (Some amts)
      (Some rcpts) 1 (\<lambda>i. demo_draws) 21 22 of_nat of_nat = Some (Ok (Some txn))"
proof -
  have rcpts: "rc \<in> set rcpts \<Longrightarrow> good_rcpt log_curve rc" for rc
    using assms(4) good_demo_rcpt by auto
  have "\<exists>txn. NewTxn (\<lambda>bs. 7) log_curve (\<lambda>o1. []) (\<lambda>b. []) (Some (replicate 8 demo_output)) 5 3 6 (Some amts)
      (Some rcpts) 1 (\<lambda>i. demo_draws) 21 22 of_nat of_nat = Some (Ok (Some txn))
    \<and> VerifyOZRS (\<lambda>bs. 7) log_curve (\<lambda>b. []) txn (take 8 (replicate 8 (cBase log_curve (int_be 5))))
        (replicate 8 (PedersenSum log_curve (int_be 3) (nat_be 10))) = Ok True
    \<and> tbInputs (txBody txn) = map (Output_Hash (\<lambda>bs. 7) (\<lambda>o1. [])) (replicate 8 demo_output) \<and> tbFee (txBody txn) = 1
    \<and> length (tbOutputs (txBody txn)) = length amts
    \<and> (\<forall>o1 \<in> set (tbOutputs (txBody txn)). RangeProof_Verify (\<lambda>bs. 7) log_curve (cmProof (oCommit o1)) = Ok True)"
    by (rule NewTxn_good [OF curve_ok_log_curve _ _ _ all_some_demo _ _ _ _ assms(3) rcpts assms(1,2)]) auto
  then show ?thesis by blast
qed

theorem new_txn_verifies_witness:
  "\<exists>txn. NewTxn (\<lambda>bs. 7) log_curve (\<lambda>o1. []) (\<lambda>b. []) (Some (replicate 8 demo_output)) 5 3 6 (Some [4, 5])
      (Some [demo_rcpt, demo_rcpt]) 1 (\<lambda>i. demo_draws) 21 22 of_nat of_nat = Some (Ok (Some txn))
    \<and> VerifyOZRS (\<lambda>bs. 7) log_curve (\<lambda>b. []) txn (take 8 (replicate 8 (cBase log_curve (int_be 5))))
        (replicate 8 (PedersenSum log_curve (int_be 3) (nat_be 10))) = Ok True"
proof -
  have "\<exists>txn. NewTxn (\<lambda>bs. 7) log_curve (\<lambda>o1. []) (\<lambda>b. []) (Some (replicate 8 demo_output)) 5 3 6 (Some [4, 5])
      (Some [demo_rcpt, demo_rcpt]) 1 (\<lambda>i. demo_draws) 21 22 of_nat of_nat = Some (Ok (Some txn))
    \<and> VerifyOZRS (\<lambda>bs. 7) log_curve (\<lambda>b. []) txn (take 8 (replicate 8 (cBase log_curve (int_be 5))))
        (replicate 8 (PedersenSum log_curve (int_be 3) (nat_be 10))) = Ok True
    \<and> tbInputs (txBody txn) = map (Output_Hash (\<lambda>bs. 7) (\<lambda>o1. [])) (replicate 8 demo_output) \<and> tbFee (txBody txn) = 1
    \<and> length (tbOutputs (txBody txn)) = length [4 :: u64, 5]
    \<and> (\<forall>o1 \<in> set (tbOutputs (txBody txn)). RangeProof_Verify (\<lambda>bs. 7) log_curve (cmProof (oCommit o1)) = Ok True)"
    by (rule new_txn_verifies [OF curve_ok_log_curve _ _ _ all_some_demo]) (use good_demo_rcpt in auto)
  then show ?thesis by blast
qed

text \<open>
  C7: The addressee of an output recognises it, recovers the blinding factor it was committed
  under, and derives a scalar whose public key is the output's destination key, so it can sign
  for it in a later ring (unless the blind seed drawn is a multiple of the group order).
\<close>

theorem owner_recognises_and_spends:
  assumes "curve_ok cv" and "key_pair cv priv tsk psk" and "uint (drQ d) mod P256_N \<noteq> 0"
  shows "\<exists>out blind x. build_output hs cv amt (PrivateKey_PublicKey priv) d = Ok (out, blind)
    \<and> BelongsToMe hs cv out (TrackingKey priv) = Ok True
    \<and> ComputeBlindingFactor hs cv out priv = Ok blind
    \<and> ComputeTxnPrivateKey hs cv out priv = Ok x \<and> 0 \<le> x \<and> oDestKey out = pt (cBase cv (int_be x))"
proof -
  note cv = assms(1)
  from assms(2) have keys: "TPK (PrivateKey_PublicKey priv) = pt (gen cv tsk)" "PPK (PrivateKey_PublicKey priv) = pt (gen cv psk)"
    "0 \<le> tsk" "0 \<le> psk" "TSK (TrackingKey priv) = Some tsk" "PSK priv = Some psk"
    "PPK (trPub (TrackingKey priv)) = pt (gen cv psk)"
    by (simp_all add: key_pair_def PrivateKey_PublicKey_def TrackingKey_def)
  obtain out blind where out: "build_output hs cv amt (PrivateKey_PublicKey priv) d = Ok (out, blind)"
    "built hs cv amt tsk psk d out blind"
    using build_output_gen [OF cv keys(1,2)] by blast
  let ?h = "hs (point_Bytes (gen cv (tsk * uint (drR d))))"
  have h: "HashSharedSecret hs cv out (TrackingKey priv) = Ok ?h"
    using out(2) keys cv by (simp add: HashSharedSecret_def built_def curve_simps mult.commute)
  have "BelongsToMe hs cv out (TrackingKey priv) = Ok True"
    using out(2) keys cv by (simp add: BelongsToMe_def h built_def curve_simps)
  moreover have "ComputeTxnPrivateKey hs cv out priv = Ok (uint ?h + psk)"
    using keys by (simp add: ComputeTxnPrivateKey_def h)
  moreover have "oDestKey out = pt (cBase cv (int_be (uint ?h + psk)))"
    using out(2) keys cv by (simp add: built_def cBase_gen)
  moreover have "ComputeBlindingFactor hs cv out priv = Ok blind"
    using out(2) keys cv assms(3) gen_eq_zero_iff [OF cv, of "uint (drQ d)"]
    by (auto simp: ComputeBlindingFactor_def built_def cMul_gen mult.commute prod_eq_iff)
  ultimately show ?thesis using out(1) keys(4) by fastforce
qed

theorem owner_recognises_and_spends_witness:
  "\<exists>out blind x. build_output (\<lambda>bs. 7) log_curve 25
        (PrivateKey_PublicKey \<lparr>prTrack = \<lparr>trPub = demo_rcpt, TSK = Some 11\<rparr>, PSK = Some 13\<rparr>) demo_draws = Ok (out, blind)
    \<and> BelongsToMe (\<lambda>bs. 7) log_curve out (TrackingKey \<lparr>prTrack = \<lparr>trPub = demo_rcpt, TSK = Some 11\<rparr>, PSK = Some 13\<rparr>) = Ok True
    \<and> ComputeBlindingFactor (\<lambda>bs. 7) log_curve out \<lparr>prTrack = \<lparr>trPub = demo_rcpt, TSK = Some 11\<rparr>, PSK = Some 13\<rparr> = Ok blind
    \<and> ComputeTxnPrivateKey (\<lambda>bs. 7) log_curve out \<lparr>prTrack = \<lparr>trPub = demo_rcpt, TSK = Some 11\<rparr>, PSK = Some 13\<rparr> = Ok x
    \<and> 0 \<le> x \<and> oDestKey out = pt (cBase log_curve (int_be x))"
  by (rule owner_recognises_and_spends [where tsk = 11 and psk = 13])
    (simp_all add: key_pair_def demo_rcpt_def demo_draws_def P256_N_def)

text \<open>
  C12: A coinbase transaction made for a height and fee passes the structural validation (given a
  size below the limit), and passes \<^verbatim>\<open>VerifyCoinbaseTxn\<close> for exactly one claimed value:
  the block reward of that height plus the fees, modulo \<open>2^64\<close>.
\<close>

theorem coinbase_value_exact:
  assumes "curve_ok cv" and "good_rcpt cv addr"
  shows "\<exists>txn. NewCoinbaseTxn hs cv addr seqNum fee r = Ok txn
    \<and> VerifyCoinbaseTxn cv txn claimed = Ok (claimed = CoinbaseValue seqNum + fee)
    \<and> (ValidCoinbaseTxn encT txn \<longleftrightarrow> length (encT txn) < MAX_BLOCK_SIZE)"
  using assms by (rule NewCoinbaseTxn_exact)

theorem coinbase_value_exact_witness:
  "\<exists>txn. NewCoinbaseTxn (\<lambda>bs. 7) log_curve demo_rcpt 21000 9 2 = Ok txn
    \<and> VerifyCoinbaseTxn log_curve txn 2500000009 = Ok (2500000009 = CoinbaseValue 21000 + 9)
    \<and> (ValidCoinbaseTxn (\<lambda>t. []) txn \<longleftrightarrow> length ([] :: bytes) < MAX_BLOCK_SIZE)"
  using coinbase_value_exact [OF curve_ok_log_curve good_demo_rcpt, of "\<lambda>bs. 7" 21000 9 2 2500000009 "\<lambda>t. []"] .

lemma sum_over_heights:
  fixes f :: "nat \<Rightarrow> nat"
  shows "(\<Sum>h\<in>UNIV. f (unat (h :: u64))) = sum f {..<2 ^ 64}"
proof -
  have "(\<Sum>h\<in>UNIV. f (unat (h :: u64))) = sum f (range (unat :: u64 \<Rightarrow> nat))"
    by (subst sum.reindex) (simp_all add: o_def)
  also have "range (unat :: u64 \<Rightarrow> nat) = {..<2 ^ 64}"
  proof (intro equalityI subsetI)
    fix n :: nat
    assume "n \<in> {..<2 ^ 64}"
    then have "unat (of_nat n :: u64) = n" by (simp add: unat_of_nat)
    then show "n \<in> range (unat :: u64 \<Rightarrow> nat)" by (metis rangeI)
  qed (use unsigned_less [where 'b = 64 and 'a = nat] in auto)
  finally show ?thesis .
qed

text \<open>
  C36: The reward of a block is zero exactly from height 693000 (33 halvings) on, and all the
  rewards of all the heights a header can carry add up to 209,999,999,769,000 units, so the
  halving schedule bounds the money supply.
\<close>

theorem total_emission:
  "(CoinbaseValue s = 0 \<longleftrightarrow> 693000 \<le> unat s)
   \<and> (\<Sum>h\<in>UNIV. unat (CoinbaseValue h)) = 209999999769000"
proof -
  let ?f = "\<lambda>n :: nat. 5000000000 div (2 :: nat) ^ (n div 21000)"
  have zero: "?f n = 0 \<longleftrightarrow> 693000 \<le> n" for n
  proof -
    have "?f n = 0 \<longleftrightarrow> 33 \<le> n div 21000"
    proof
      assume "33 \<le> n div 21000"
      then have "(2 :: nat) ^ 33 \<le> 2 ^ (n div 21000)" by (rule power_increasing) simp
      then show "?f n = 0" by simp
    next
      assume z: "?f n = 0"
      show "33 \<le> n div 21000"
      proof (rule ccontr)
        assume "\<not> 33 \<le> n div 21000"
        then have "(2 :: nat) ^ (n div 21000) \<le> 2 ^ 32" by (intro power_increasing) simp_all
        with z show False by (simp add: div_eq_0_iff)
      qed
    qed
    also have "\<dots> \<longleftrightarrow> 693000 \<le> n" by (simp add: less_eq_div_iff_mult_less_eq)
    finally show ?thesis .
  qed
  have "CoinbaseValue s = 0 \<longleftrightarrow> 693000 \<le> unat s"
    using zero [of "unat s"] by (simp only: unat_CoinbaseValue unat_eq_zero [symmetric])
  moreover have "(\<Sum>h\<in>UNIV. unat (CoinbaseValue h)) = 209999999769000"
  proof -
    have "(\<Sum>h\<in>UNIV. unat (CoinbaseValue h)) = sum ?f {..<2 ^ 64}"
      unfolding unat_CoinbaseValue by (rule sum_over_heights)
    also have "\<dots> = sum ?f {..<33 * 21000}"
      by (rule sum.mono_neutral_right) (use zero in auto)
    also have "\<dots> = (\<Sum>k<33. sum ?f {k * 21000..<k * 21000 + 21000})"
      by (rule sum.nat_group [symmetric])
    also have "\<dots> = (\<Sum>k<33. 21000 * (5000000000 div (2 :: nat) ^ k))"
    proof (rule sum.cong [OF refl])
      fix k :: nat
      have "sum ?f {k * 21000..<k * 21000 + 21000} = sum (\<lambda>n. 5000000000 div (2 :: nat) ^ k) {k * 21000..<k * 21000 + 21000}"
        proof (rule sum.cong [OF refl])
        fix n assume "n \<in> {k * 21000..<k * 21000 + 21000}"
        then have "n div 21000 = k" by (intro div_nat_eqI) auto
        then show "?f n = 5000000000 div (2 :: nat) ^ k" by simp
      qed
      then show "sum ?f {k * 21000..<k * 21000 + 21000} = 21000 * (5000000000 div (2 :: nat) ^ k)"
        by simp
    qed
    also have "\<dots> = 209999999769000"
      by (simp add: lessThan_nat_numeral lessThan_Suc)
    finally show ?thesis .
  qed
  ultimately show ?thesis by blast
qed

text \<open>
  C38: A payment with a single output, which is what the wallet builds when the amount and the
  fee use up the funding output, is rejected by both validations a transaction pool tries.
\<close>

theorem single_output_payment_rejected:
  assumes "NewTxn hs cv encO encB (Some ins) sk yi idx (Some [amt]) rcpts fee dr k1 k2 rr sr = Some (Ok (Some txn))"
  shows "\<not> ValidTxn encT txn \<and> (8 \<le> length ins \<longrightarrow> \<not> ValidCoinbaseTxn encT txn)"
proof -
  have "length (tbOutputs (txBody txn)) = 1 \<and> length (tbInputs (txBody txn)) = length ins"
    using assms
    by (auto simp: NewTxn_def BuildOutputs_def OZRSSign_def res_bind_eq_Ok Let_def split: option.splits if_splits res.splits prod.splits)
  then show ?thesis
    by (auto simp: ValidTxn_def ValidCoinbaseTxn_def TXN_NUM_OUTPUTS_def)
qed

theorem single_output_payment_rejected_witness:
  "\<exists>txn. NewTxn (\<lambda>bs. 7) log_curve (\<lambda>o1. []) (\<lambda>b. []) (Some (replicate 8 demo_output)) 5 3 6 (Some [9])
      (Some [demo_rcpt]) 1 (\<lambda>i. demo_draws) 21 22 of_nat of_nat = Some (Ok (Some txn))
    \<and> \<not> ValidTxn (\<lambda>t. []) txn \<and> \<not> ValidCoinbaseTxn (\<lambda>t. []) txn"
proof -
  obtain txn where txn: "NewTxn (\<lambda>bs. 7) log_curve (\<lambda>o1. []) (\<lambda>b. []) (Some (replicate 8 demo_output)) 5 3 6 (Some [9])
      (Some [demo_rcpt]) 1 (\<lambda>i. demo_draws) 21 22 of_nat of_nat = Some (Ok (Some txn))"
    using demo_payment [of "[9]" "[demo_rcpt]"] by auto
  show ?thesis
    using single_output_payment_rejected [OF txn, of "\<lambda>t. []"] txn by auto
qed

end
