(* ===== verification/Block.thy ===== *)
theory Block
  imports Txns
begin

text \<open>
  \<^verbatim>\<open>block.go\<close> as far as it needs no storage: headers and blocks, the proof of work, the
  Merkle root, the prevalidation of a block and the mining of the genesis block.  \<open>encH\<close> is
  \<^verbatim>\<open>json.Marshal\<close> on a header and \<open>encT\<close> on a transaction.
\<close>

section \<open>Headers and blocks\<close>

text \<open>
  \<^verbatim>\<open>time.Time\<close>: the instant in nanoseconds since the Unix epoch, and the offset of its zone,
  which only its JSON text shows.
\<close>

record go_time =
  tmNano :: int
  tmZone :: int

definition Unix :: "go_time \<Rightarrow> int" where
  "Unix t = tmNano t div 1000000000"

definition time_Add :: "go_time \<Rightarrow> int \<Rightarrow> go_time" where
  "time_Add t d = t\<lparr>tmNano := tmNano t + d\<rparr>"

definition time_Before :: "go_time \<Rightarrow> go_time \<Rightarrow> bool" where
  "time_Before t u \<longleftrightarrow> tmNano t < tmNano u"

definition Hour :: int where
  "Hour = 3600 * 1000000000"

record BlockHeader =
  bhSeqNum :: u64
  bhPrevHash :: SHA256Sum
  bhMerkleRoot :: SHA256Sum
  bhTime :: go_time
  bhDifficulty :: u64
  bhNonce :: u64

record Block =
  bkHeader :: BlockHeader
  bkTxns :: "Txn list"

definition INITIAL_DIFFICULTY :: u64 where
  "INITIAL_DIFFICULTY = 16"

definition BlockHeader_Hash :: "(bytes \<Rightarrow> SHA256Sum) \<Rightarrow> (BlockHeader \<Rightarrow> bytes) \<Rightarrow> BlockHeader \<Rightarrow> SHA256Sum" where
  "BlockHeader_Hash hs encH b = hs (encH b)"

section \<open>Proof of work\<close>

text \<open>The two loops of \<^verbatim>\<open>ValidPoW\<close>: over the bytes of the hash, then over the bits of one byte.\<close>

fun pow_bytes :: "bytes \<Rightarrow> nat \<Rightarrow> u64 \<Rightarrow> bool" where
  "pow_bytes [] i zeroBytes = True"
| "pow_bytes (c # cs) i zeroBytes =
     (if of_nat i < zeroBytes then (if c \<noteq> 0 then False else pow_bytes cs (Suc i) zeroBytes) else True)"

fun pow_bits :: "byte \<Rightarrow> nat list \<Rightarrow> u64 \<Rightarrow> bool" where
  "pow_bits c [] bitOffset = True"
| "pow_bits c (j # js) bitOffset =
     (if of_nat j < bitOffset
      then (if drop_bit (7 - j) c AND 1 \<noteq> 0 then False else pow_bits c js bitOffset) else True)"

text \<open>Indexing the hash at 32 or beyond panics.\<close>

definition ValidPoW :: "(bytes \<Rightarrow> SHA256Sum) \<Rightarrow> (BlockHeader \<Rightarrow> bytes) \<Rightarrow> BlockHeader \<Rightarrow> bool res" where
  "ValidPoW hs encH bh =
     (let difficulty = bhDifficulty bh; zeroBytes = difficulty div 8; bitOffset = difficulty mod 8;
          h = sum_bytes (BlockHeader_Hash hs encH bh)
      in if \<not> pow_bytes h 0 zeroBytes then Ok False
         else res_bind (at h (unat zeroBytes)) (\<lambda>c. Ok (pow_bits c [0..<8] bitOffset)))"

definition ValidHeader :: "(bytes \<Rightarrow> SHA256Sum) \<Rightarrow> (BlockHeader \<Rightarrow> bytes) \<Rightarrow> go_time \<Rightarrow> BlockHeader \<Rightarrow> bool res" where
  "ValidHeader hs encH now header =
     res_bind (ValidPoW hs encH header) (\<lambda>ok.
       if \<not> ok then Ok False
       else if time_Before (time_Add (bhTime header) (2 * Hour)) now then Ok False
       else if bhSeqNum header = 0 \<and> bhPrevHash header \<noteq> 0 then Ok False
       else Ok True)"

section \<open>Merkle root\<close>

text \<open>Doubling from one slot; the guard on a zero count, which cannot arise, is for termination.\<close>

function slots_for :: "nat \<Rightarrow> nat \<Rightarrow> nat" where
  "slots_for n numSlots = (if numSlots < n \<and> 0 < numSlots then slots_for n (numSlots * 2) else numSlots)"
  by pat_completeness auto
termination by (relation "measure (\<lambda>(n, k). n - k)") auto

declare slots_for.simps [simp del]

definition merkle_slots :: "(bytes \<Rightarrow> SHA256Sum) \<Rightarrow> (Txn \<Rightarrow> bytes) \<Rightarrow> Txn list \<Rightarrow> SHA256Sum list" where
  "merkle_slots hs encT txns =
     map (\<lambda>i. if i < length txns then hs (encT (txns ! i)) else 0) [0..<slots_for (length txns) 1]"

definition combine_slots :: "(bytes \<Rightarrow> SHA256Sum) \<Rightarrow> SHA256Sum list \<Rightarrow> SHA256Sum list" where
  "combine_slots hs slots =
     map (\<lambda>i. hs (sum_bytes (slots ! (2 * i)) @ sum_bytes (slots ! (2 * i + 1)))) [0..<length slots div 2]"

text \<open>The reduction: a level of combined hashes is computed, and the old level is kept, cut in half.\<close>

function merkle_reduce :: "(bytes \<Rightarrow> SHA256Sum) \<Rightarrow> SHA256Sum list \<Rightarrow> SHA256Sum list" where
  "merkle_reduce hs slots =
     (if length slots > 1
      then (let numNewSlots = length slots div 2; newSlots = combine_slots hs slots
            in merkle_reduce hs (take numNewSlots slots))
      else slots)"
  by pat_completeness auto
termination by (relation "measure (\<lambda>(hs, slots). length slots)") auto

declare merkle_reduce.simps [simp del]

definition MerkleHash :: "(bytes \<Rightarrow> SHA256Sum) \<Rightarrow> (Txn \<Rightarrow> bytes) \<Rightarrow> Block \<Rightarrow> SHA256Sum" where
  "MerkleHash hs encT b = merkle_reduce hs (merkle_slots hs encT (bkTxns b)) ! 0"

definition VerifyMerkleHash :: "(bytes \<Rightarrow> SHA256Sum) \<Rightarrow> (Txn \<Rightarrow> bytes) \<Rightarrow> Block \<Rightarrow> bool" where
  "VerifyMerkleHash hs encT b = (MerkleHash hs encT b = bhMerkleRoot (bkHeader b))"

text \<open>A nil transaction list and an empty one are the same list here; both are refused.\<close>

definition PrevalidBlock :: "(bytes \<Rightarrow> SHA256Sum) \<Rightarrow> (Txn \<Rightarrow> bytes) \<Rightarrow> Block \<Rightarrow> bool" where
  "PrevalidBlock hs encT b =
     (if length (bkTxns b) = 0 then False
      else if \<not> ValidTxns encT (bkTxns b) then False
      else if \<not> VerifyMerkleHash hs encT b then False
      else True)"

section \<open>The genesis block\<close>

text \<open>The nonce loop: it may never end (\<open>None\<close>).\<close>

partial_function (option) mine_nonce ::
  "(bytes \<Rightarrow> SHA256Sum) \<Rightarrow> (BlockHeader \<Rightarrow> bytes) \<Rightarrow> BlockHeader \<Rightarrow> BlockHeader res option" where
  "mine_nonce hs encH h =
     (case ValidPoW hs encH h of
        Ok ok \<Rightarrow> if ok then Some (Ok h) else mine_nonce hs encH (h\<lparr>bhNonce := bhNonce h + 1\<rparr>)
      | Err e \<Rightarrow> Some (Err e)
      | Panic \<Rightarrow> Some Panic)"

definition genesis_header :: "go_time \<Rightarrow> BlockHeader" where
  "genesis_header now = \<lparr>bhSeqNum = 0, bhPrevHash = 0, bhMerkleRoot = 0, bhTime = now,
     bhDifficulty = INITIAL_DIFFICULTY, bhNonce = 0\<rparr>"

definition GenesisBlock :: "(bytes \<Rightarrow> SHA256Sum) \<Rightarrow> curve \<Rightarrow> (Txn \<Rightarrow> bytes) \<Rightarrow> (BlockHeader \<Rightarrow> bytes) \<Rightarrow> go_time
    \<Rightarrow> WalletPublicKey \<Rightarrow> SHA256Sum \<Rightarrow> Block res option" where
  "GenesisBlock hs cv encT encH now address r =
     (case NewCoinbaseTxn hs cv address 0 0 r of
        Ok coinbaseTxn \<Rightarrow>
          (let b = \<lparr>bkHeader = genesis_header now, bkTxns = [coinbaseTxn]\<rparr>;
               h = (bkHeader b)\<lparr>bhMerkleRoot := MerkleHash hs encT b\<rparr>
           in map_option (\<lambda>m. res_bind m (\<lambda>h'. Ok (b\<lparr>bkHeader := h'\<rparr>))) (mine_nonce hs encH h))
      | Err e \<Rightarrow> Some (Err e)
      | Panic \<Rightarrow> Some Panic)"

section \<open>The proof of work as a bound on the hash\<close>

lemma pow_bytes_iff:
  "i + length bs \<le> 2 ^ 64 \<Longrightarrow> pow_bytes bs i z \<longleftrightarrow> (\<forall>k < length bs. i + k < unat z \<longrightarrow> bs ! k = 0)"
proof (induction bs arbitrary: i)
  case (Cons c cs)
  have "of_nat i < z \<longleftrightarrow> i < unat z"
    using Cons.prems by (simp add: word_less_nat_alt unat_of_nat)
  then show ?case
    using Cons.IH [of "Suc i"] Cons.prems by (auto simp: All_less_Suc2)
qed simp

lemma and_1_bit: "drop_bit n c AND 1 \<noteq> 0 \<longleftrightarrow> bit (c :: byte) n"
  by (simp add: and_one_eq bit_iff_odd_drop_bit odd_iff_mod_2_eq_one)

lemma pow_bits_iff:
  "sorted js \<Longrightarrow> set js \<subseteq> {..<8} \<Longrightarrow> pow_bits c js z \<longleftrightarrow> (\<forall>j \<in> set js. j < unat z \<longrightarrow> \<not> bit c (7 - j))"
proof (induction js)
  case (Cons j js)
  have j: "(of_nat j < z) = (j < unat z)"
    using Cons.prems by (simp add: word_less_nat_alt unat_of_nat)
  show ?case
    using Cons by (auto simp: j and_1_bit)
qed simp

lemma bit_sum_bytes:
  assumes "i < 32" "j < 8"
  shows "bit (sum_bytes h ! i) (7 - j) \<longleftrightarrow> bit h (255 - (8 * i + j))"
proof -
  have e: "(256 :: nat) ^ (31 - i) = 2 ^ (8 * (31 - i))" by (simp add: power_mult)
  have k: "8 * (31 - i) + (7 - j) = 255 - (8 * i + j)" "7 - j < 8" using assms by arith+
  have "unat h div 256 ^ (31 - i) mod 256 = take_bit 8 (drop_bit (8 * (31 - i)) (unat h))"
    by (simp add: e drop_bit_eq_div take_bit_eq_mod)
  then show ?thesis
    using assms by (simp add: nth_sum_bytes bit_of_nat_iff bit_take_bit_iff bit_drop_bit_eq bit_unsigned_iff k)
qed

lemma byte_zero_iff: "c = 0 \<longleftrightarrow> (\<forall>j < 8. \<not> bit (c :: byte) (7 - j))"
proof
  assume r: "\<forall>j < 8. \<not> bit c (7 - j)"
  show "c = 0"
  proof (rule bit_word_eqI)
    fix n :: nat
    assume "n < LENGTH(8)"
    with r [rule_format, of "7 - n"] show "bit c n = bit 0 n" by simp
  qed
qed simp

lemma leading_zeros:
  assumes "n \<le> 256"
  shows "unat (h :: SHA256Sum) < 2 ^ n \<longleftrightarrow> (\<forall>k < 256 - n. \<not> bit h (255 - k))"
proof -
  have "unat h < 2 ^ n \<longleftrightarrow> take_bit n h = h"
    by (simp add: take_bit_nat_eq_self_iff [symmetric] unsigned_take_bit_eq [symmetric] word_unat_eq_iff)
  also have "\<dots> \<longleftrightarrow> (\<forall>k < 256 - n. \<not> bit h (255 - k))"
  proof
    assume t: "take_bit n h = h"
    have "bit h m \<Longrightarrow> m < n" for m by (metis bit_take_bit_iff t)
    then show "\<forall>k < 256 - n. \<not> bit h (255 - k)" by fastforce
  next
    assume r: "\<forall>k < 256 - n. \<not> bit h (255 - k)"
    have "\<not> bit h m" if "n \<le> m" "m < 256" for m
      using r [rule_format, of "255 - m"] that assms by simp
    then show "take_bit n h = h"
      by (auto simp: bit_eq_iff bit_take_bit_iff not_less [symmetric])
  qed
  finally show ?thesis .
qed

text \<open>The first \<open>d\<close> bits, taken byte by byte.\<close>

lemma all_below_by_bytes:
  fixes d :: nat
  shows "(\<forall>k < d. P k) \<longleftrightarrow> (\<forall>i < d div 8. \<forall>j < 8. P (8 * i + j)) \<and> (\<forall>j < d mod 8. P (8 * (d div 8) + j))"
proof
  assume r: "\<forall>k < d. P k"
  have "8 * i + j < d" if "i < d div 8" "j < 8" for i j using that by linarith
  moreover have "8 * (d div 8) + j < d" if "j < d mod 8" for j
    using that mult_div_mod_eq [of 8 d] by linarith
  ultimately show "(\<forall>i < d div 8. \<forall>j < 8. P (8 * i + j)) \<and> (\<forall>j < d mod 8. P (8 * (d div 8) + j))"
    using r by blast
next
  assume p: "(\<forall>i < d div 8. \<forall>j < 8. P (8 * i + j)) \<and> (\<forall>j < d mod 8. P (8 * (d div 8) + j))"
  have "P k" if k: "k < d" for k
  proof -
    have e: "8 * (k div 8) + k mod 8 = k" "k mod 8 < 8" by simp_all
    show ?thesis
    proof (cases "k div 8 < d div 8")
      case True
      with p e show ?thesis by metis
    next
      case False
      with k have d: "k div 8 = d div 8" using div_le_mono [of k d 8] by linarith
      then have "k mod 8 < d mod 8" using k e(1) mult_div_mod_eq [of 8 d] by linarith
      with p e d show ?thesis by metis
    qed
  qed
  then show "\<forall>k < d. P k" by blast
qed

lemma pow_bytes_bits:
  "pow_bytes (sum_bytes h) 0 z \<longleftrightarrow> (\<forall>i < 32. i < unat z \<longrightarrow> (\<forall>j < 8. \<not> bit h (255 - (8 * i + j))))"
  by (subst pow_bytes_iff) (auto simp: byte_zero_iff bit_sum_bytes)

lemma pow_all_zero:
  assumes "32 \<le> unat z"
  shows "pow_bytes (sum_bytes h) 0 z \<longleftrightarrow> h = 0"
proof -
  have "pow_bytes (sum_bytes h) 0 z \<longleftrightarrow> (\<forall>i < 256 div 8. \<forall>j < 8. \<not> bit h (255 - (8 * i + j)))"
    using assms by (auto simp: pow_bytes_bits)
  also have "\<dots> \<longleftrightarrow> unat h < 2 ^ 0"
    using leading_zeros [of 0 h] all_below_by_bytes [of 256 "\<lambda>k. \<not> bit h (255 - k)"] by simp
  finally show ?thesis by (simp add: unat_eq_zero)
qed

lemma pow_prefix:
  assumes "unat d < 256"
  shows "pow_bytes (sum_bytes h) 0 (d div 8) \<and> pow_bits (sum_bytes h ! unat (d div 8)) [0..<8] (d mod 8)
    \<longleftrightarrow> unat h < 2 ^ (256 - unat d)"
proof -
  have z: "unat (d div 8) = unat d div 8" "unat d div 8 < 32" and o: "unat (d mod 8) = unat d mod 8"
    using assms by (simp_all add: unat_div unat_mod)
  have "pow_bits (sum_bytes h ! unat (d div 8)) [0..<8] (d mod 8)
      \<longleftrightarrow> (\<forall>j < unat d mod 8. \<not> bit h (255 - (8 * (unat d div 8) + j)))"
    by (subst pow_bits_iff) (auto simp: o z bit_sum_bytes)
  moreover have "pow_bytes (sum_bytes h) 0 (d div 8)
      \<longleftrightarrow> (\<forall>i < unat d div 8. \<forall>j < 8. \<not> bit h (255 - (8 * i + j)))"
    using z by (auto simp: pow_bytes_bits)
  ultimately show ?thesis
    using leading_zeros [of "256 - unat d" h] all_below_by_bytes [of "unat d" "\<lambda>k. \<not> bit h (255 - k)"] assms
    by simp
qed

lemma ValidPoW_eq:
  "ValidPoW hs encH bh =
     (if unat (bhDifficulty bh) < 256 then Ok (unat (hs (encH bh)) < 2 ^ (256 - unat (bhDifficulty bh)))
      else if hs (encH bh) = 0 then Panic else Ok False)"
proof (cases "unat (bhDifficulty bh) < 256")
  case True
  then have "unat (bhDifficulty bh div 8) < 32" by (simp add: unat_div)
  with True show ?thesis
    using pow_prefix [OF True, of "hs (encH bh)"] by (auto simp: ValidPoW_def Let_def BlockHeader_Hash_def)
next
  case False
  then have "32 \<le> unat (bhDifficulty bh div 8)" by (simp add: unat_div)
  with False show ?thesis
    by (simp add: ValidPoW_def Let_def BlockHeader_Hash_def pow_all_zero at_def)
qed

section \<open>The Merkle root and the nonce loop\<close>

lemma slots_for_pos: "0 < k \<Longrightarrow> 0 < slots_for n k"
  by (induction n k rule: slots_for.induct) (simp add: slots_for.simps)

lemma merkle_reduce_hd: "slots \<noteq> [] \<Longrightarrow> merkle_reduce hs slots ! 0 = slots ! 0"
proof (induction hs slots rule: merkle_reduce.induct)
  case (1 hs slots)
  show ?case
  proof (cases "length slots > 1")
    case True
    then have "take (length slots div 2) slots \<noteq> []" "take (length slots div 2) slots ! 0 = slots ! 0"
      by (cases slots; auto)+
    with 1 True show ?thesis by (subst merkle_reduce.simps) (simp add: Let_def)
  qed (subst merkle_reduce.simps; simp)
qed

lemma MerkleHash_eq: "MerkleHash hs encT b = (case bkTxns b of [] \<Rightarrow> 0 | t # ts \<Rightarrow> hs (encT t))"
proof -
  have "merkle_slots hs encT (bkTxns b) \<noteq> []"
    using slots_for_pos [of 1 "length (bkTxns b)"] by (simp add: merkle_slots_def)
  then show ?thesis
    unfolding MerkleHash_def
    by (subst merkle_reduce_hd) (auto simp: merkle_slots_def nth_map split: list.splits)
qed

text \<open>
  The loop stops at the first nonce of the sequence that the proof of work accepts, and runs
  for ever when there is none.
\<close>

lemma mine_nonce_finds:
  assumes "\<And>k. k < n \<Longrightarrow> ValidPoW hs encH (h\<lparr>bhNonce := bhNonce h + of_nat k\<rparr>) = Ok False"
    and "ValidPoW hs encH (h\<lparr>bhNonce := bhNonce h + of_nat n\<rparr>) = Ok True"
  shows "mine_nonce hs encH h = Some (Ok (h\<lparr>bhNonce := bhNonce h + of_nat n\<rparr>))"
  using assms
proof (induction n arbitrary: h)
  case 0
  then show ?case by (subst mine_nonce.simps) simp
next
  case (Suc n)
  let ?h = "h\<lparr>bhNonce := bhNonce h + 1\<rparr>"
  have "mine_nonce hs encH ?h = Some (Ok (?h\<lparr>bhNonce := bhNonce ?h + of_nat n\<rparr>))"
    using Suc.prems(1) [of "Suc _"] Suc.prems(2) by (intro Suc.IH) (simp_all add: add.assoc)
  then show ?case
    using Suc.prems(1) [of 0] by (subst mine_nonce.simps) (simp add: add.assoc)
qed

lemma mine_nonce_ends:
  assumes "mine_nonce hs encH h = Some r"
  shows "\<exists>n. ValidPoW hs encH (h\<lparr>bhNonce := n\<rparr>) \<noteq> Ok False"
proof (rule mine_nonce.raw_induct [where P = "\<lambda>hs encH h r. \<exists>n. ValidPoW hs encH (h\<lparr>bhNonce := n\<rparr>) \<noteq> Ok False", OF _ assms])
  fix mine :: "(bytes \<Rightarrow> SHA256Sum) \<Rightarrow> (BlockHeader \<Rightarrow> bytes) \<Rightarrow> BlockHeader \<Rightarrow> BlockHeader res option"
    and hs and encH :: "BlockHeader \<Rightarrow> bytes" and h r
  assume ih: "\<And>hs encH h r. mine hs encH h = Some r \<Longrightarrow> \<exists>n. ValidPoW hs encH (h\<lparr>bhNonce := n\<rparr>) \<noteq> Ok False"
    and step: "(case ValidPoW hs encH h of
        Ok ok \<Rightarrow> if ok then Some (Ok h) else mine hs encH (h\<lparr>bhNonce := bhNonce h + 1\<rparr>)
      | Err e \<Rightarrow> Some (Err e) | Panic \<Rightarrow> Some Panic) = Some r"
  show "\<exists>n. ValidPoW hs encH (h\<lparr>bhNonce := n\<rparr>) \<noteq> Ok False"
  proof (cases "ValidPoW hs encH h = Ok False")
    case True
    with step have "mine hs encH (h\<lparr>bhNonce := bhNonce h + 1\<rparr>) = Some r" by simp
    from ih [OF this] show ?thesis by simp
  next
    case False
    then show ?thesis by (intro exI [of _ "bhNonce h"]) simp
  qed
qed

section \<open>Properties\<close>

text \<open>
  C21: \<^verbatim>\<open>ValidHeader\<close>, whose proof-of-work test is written over bytes and bits, accepts a
  header of difficulty below 256 exactly when its hash is below \<open>2^(256 - difficulty)\<close>, its time
  is at most two hours in the past, and it is not a header of height zero with a parent.  From
  difficulty 256 on it accepts nothing, and indexes out of range on the zero hash.
\<close>

theorem header_accepted_iff:
  "ValidHeader hs encH now h =
     (let d = unat (bhDifficulty h); target = 2 ^ (256 - d)
      in if d < 256
         then Ok (unat (hs (encH h)) < target \<and> tmNano now \<le> tmNano (bhTime h) + 7200000000000
                  \<and> \<not> (bhSeqNum h = 0 \<and> bhPrevHash h \<noteq> 0))
         else if hs (encH h) = 0 then Panic else Ok False)"
  by (simp add: ValidHeader_def ValidPoW_eq Let_def time_Before_def time_Add_def Hour_def not_less)

text \<open>
  C32: The Merkle root of a block depends on its first transaction only: it is the hash of the
  coinbase, so a block keeps passing \<^verbatim>\<open>VerifyMerkleHash\<close>, with the same header, when all
  its other transactions are replaced.
\<close>

theorem merkle_root_is_coinbase_hash:
  "MerkleHash hs encT \<lparr>bkHeader = h, bkTxns = t # ts\<rparr> = hs (encT t)
   \<and> VerifyMerkleHash hs encT \<lparr>bkHeader = h, bkTxns = t # ts\<rparr>
     = VerifyMerkleHash hs encT \<lparr>bkHeader = h, bkTxns = t # us\<rparr>"
  by (simp add: MerkleHash_eq VerifyMerkleHash_def)

lemma ValidPoW_genesis:
  "bhDifficulty h = INITIAL_DIFFICULTY \<Longrightarrow> ValidPoW hs encH h = Ok (unat (hs (encH h)) < 2 ^ 240)"
  by (simp add: ValidPoW_eq INITIAL_DIFFICULTY_def)

lemma NewCoinbaseTxn_good:
  assumes "good_rcpt cv addr"
  shows "\<exists>txn. NewCoinbaseTxn hs cv addr seqNum fee r = Ok txn
    \<and> (ValidCoinbaseTxn encT txn \<longleftrightarrow> length (encT txn) < MAX_BLOCK_SIZE)"
  using assms by (auto simp: NewCoinbaseTxn_def Let_def good_rcpt_def ValidCoinbaseTxn_def missing_data_def)

text \<open>
  C22: Mining the genesis block ends if and only if some nonce brings the hash of the header below
  \<open>2^240\<close>.  It then gives the block of height zero with one coinbase transaction and the
  smallest such nonce, and that block passes the prevalidation unless its coinbase is too large.
\<close>

theorem genesis_block_mined:
  assumes "good_rcpt cv addr"
  shows "\<exists>txn. NewCoinbaseTxn hs cv addr 0 0 r = Ok txn \<and>
    (let h = (genesis_header now)\<lparr>bhMerkleRoot := hs (encT txn)\<rparr>;
         good = (\<lambda>n. unat (hs (encH (h\<lparr>bhNonce := n\<rparr>))) < 2 ^ 240)
     in case GenesisBlock hs cv encT encH now addr r of
          None \<Rightarrow> \<forall>n. \<not> good n
        | Some res \<Rightarrow> \<exists>n. good n \<and> (\<forall>m < n. \<not> good m)
            \<and> res = Ok \<lparr>bkHeader = h\<lparr>bhNonce := n\<rparr>, bkTxns = [txn]\<rparr>
            \<and> PrevalidBlock hs encT \<lparr>bkHeader = h\<lparr>bhNonce := n\<rparr>, bkTxns = [txn]\<rparr> = (length (encT txn) < MAX_BLOCK_SIZE))"
proof -
  obtain txn where txn: "NewCoinbaseTxn hs cv addr 0 0 r = Ok txn"
    "ValidCoinbaseTxn encT txn \<longleftrightarrow> length (encT txn) < MAX_BLOCK_SIZE"
    using NewCoinbaseTxn_good [OF assms] by blast
  define h where "h = (genesis_header now)\<lparr>bhMerkleRoot := hs (encT txn)\<rparr>"
  define good where "good = (\<lambda>n. unat (hs (encH (h\<lparr>bhNonce := n\<rparr>))) < 2 ^ 240)"
  have pow: "ValidPoW hs encH (h\<lparr>bhNonce := n\<rparr>) = Ok (good n)" for n
    by (simp add: good_def h_def genesis_header_def ValidPoW_genesis)
  have zero: "bhNonce h = 0" by (simp add: h_def genesis_header_def)
  have gen: "GenesisBlock hs cv encT encH now addr r
      = map_option (\<lambda>m. res_bind m (\<lambda>h'. Ok \<lparr>bkHeader = h', bkTxns = [txn]\<rparr>)) (mine_nonce hs encH h)"
    by (simp add: GenesisBlock_def txn(1) Let_def MerkleHash_eq h_def)
  have preval: "PrevalidBlock hs encT \<lparr>bkHeader = h\<lparr>bhNonce := n\<rparr>, bkTxns = [txn]\<rparr> = (length (encT txn) < MAX_BLOCK_SIZE)" for n
    by (simp add: PrevalidBlock_def VerifyMerkleHash_def MerkleHash_eq ValidTxns_Cons txn(2) h_def)
  have "case GenesisBlock hs cv encT encH now addr r of
          None \<Rightarrow> \<forall>n. \<not> good n
        | Some res \<Rightarrow> \<exists>n. good n \<and> (\<forall>m < n. \<not> good m) \<and> res = Ok \<lparr>bkHeader = h\<lparr>bhNonce := n\<rparr>, bkTxns = [txn]\<rparr>"
  proof (cases "\<exists>n. good n")
    case True
    define n where "n = (LEAST n. good n)"
    have n: "good n" "\<And>m. m < n \<Longrightarrow> \<not> good m"
      using True not_less_Least unfolding n_def by (auto intro: LeastI_ex)
    have "\<not> good (of_nat k)" if "k < unat n" for k
      using that unsigned_less [of n, where 'a = nat] by (intro n(2)) (simp add: word_less_nat_alt unat_of_nat)
    then have "mine_nonce hs encH h = Some (Ok (h\<lparr>bhNonce := bhNonce h + of_nat (unat n)\<rparr>))"
      using n(1) by (intro mine_nonce_finds) (simp_all add: pow zero)
    moreover note zero
    ultimately show ?thesis using n by (auto simp: gen)
  next
    case False
    then have "mine_nonce hs encH h = None"
      using mine_nonce_ends [of hs encH h] by (cases "mine_nonce hs encH h") (auto simp: pow)
    with False show ?thesis by (simp add: gen)
  qed
  with txn(1) preval show ?thesis
    unfolding good_def h_def by (intro exI [of _ txn]) (cases "GenesisBlock hs cv encT encH now addr r"; simp add: Let_def; blast)
qed

theorem genesis_block_mined_witness:
  "\<exists>txn. GenesisBlock (\<lambda>bs. 7) log_curve (\<lambda>t. []) (\<lambda>h. []) \<lparr>tmNano = 0, tmZone = 0\<rparr> demo_rcpt 3
     = Some (Ok \<lparr>bkHeader = (genesis_header \<lparr>tmNano = 0, tmZone = 0\<rparr>)\<lparr>bhMerkleRoot := 7\<rparr>, bkTxns = [txn]\<rparr>)"
  using genesis_block_mined [OF good_demo_rcpt, of "\<lambda>bs. 7" 3 "\<lambda>t. []" "\<lparr>tmNano = 0, tmZone = 0\<rparr>" "\<lambda>h. []"]
  by (auto simp: Let_def genesis_header_def split: option.splits) (metis word_neq_0_conv)+

end
