(* ===== verification/Codec.thy ===== *)
theory Codec
  imports Block "HOL-Library.Countable"
begin

text \<open>
  A codec for the data the program stores: the model's records are countable, so numbering
  them and spelling the number in bytes can be undone.  It stands in for JSON where a concrete
  instance of the environment is needed.
\<close>

instance word :: (len) countable
  by (rule countable_classI [of "\<lambda>w. unat w"]) (simp add: word_unat_eq_iff)

instance eccpoint_ext :: (countable) countable
  by (rule countable_classI [of "\<lambda>r. to_nat (ptX r, ptY r, eccpoint.more r)"])
    (auto intro: eccpoint.equality)

instance range_proof_ext :: (countable, countable, countable) countable
  by (rule countable_classI [of "\<lambda>r. to_nat (rpE r, rpSs r, rpPKs r, range_proof.more r)"])
    (auto intro: range_proof.equality)

instance Commitment_ext :: (countable) countable
  by (rule countable_classI [of "\<lambda>r. to_nat (cmPt r, cmProof r, Commitment.more r)"])
    (auto intro: Commitment.equality)

instance Output_ext :: (countable) countable
  by (rule countable_classI [of "\<lambda>r. to_nat (oPublicKey r, oDestKey r, oBlindSeed r, oCommit r, Output.Output.more r)"])
    (auto intro: Output.Output.equality)

instance OZRS_ext :: (countable) countable
  by (rule countable_classI [of "\<lambda>r. to_nat (zPreimage r, zE r, zRs r, zSs r, OZRS.more r)"])
    (auto intro: OZRS.equality)

instance TxnBody_ext :: (countable) countable
  by (rule countable_classI [of "\<lambda>r. to_nat (tbInputs r, tbOutputs r, tbFee r, TxnBody.more r)"])
    (auto intro: TxnBody.equality)

instance Txn_ext :: (countable) countable
  by (rule countable_classI [of "\<lambda>r. to_nat (txBody r, txSig r, Txn.more r)"])
    (auto intro: Txn.equality)

instance go_time_ext :: (countable) countable
  by (rule countable_classI [of "\<lambda>r. to_nat (tmNano r, tmZone r, go_time.more r)"])
    (auto intro: go_time.equality)

instance BlockHeader_ext :: (countable) countable
  by (rule countable_classI [of "\<lambda>r. to_nat (bhSeqNum r, bhPrevHash r, bhMerkleRoot r, bhTime r, bhDifficulty r,
      bhNonce r, BlockHeader.more r)"])
    (auto intro: BlockHeader.equality)

instance Block_ext :: (countable) countable
  by (rule countable_classI [of "\<lambda>r. to_nat (bkHeader r, bkTxns r, Block.Block.more r)"])
    (auto intro: Block.Block.equality)

instance OutputPlaintext_ext :: (countable) countable
  by (rule countable_classI [of "\<lambda>r. to_nat (opOutput r, map of_char (opHashPub r) :: nat list,
      map of_char (opTime r) :: nat list, opAmount r, opHeight r, OutputPlaintext.more r)"])
    (auto intro: OutputPlaintext.equality simp: inj_map_eq_map inj_of_char)

instance WalletPublicKey_ext :: (countable) countable
  by (rule countable_classI [of "\<lambda>r. to_nat (TPK r, PPK r, WalletPublicKey.more r)"])
    (auto intro: WalletPublicKey.equality)

instance WalletTrackingKey_ext :: (countable) countable
  by (rule countable_classI [of "\<lambda>r. to_nat (trPub r, TSK r, WalletTrackingKey.more r)"])
    (auto intro: WalletTrackingKey.equality)

instance WalletPrivateKey_ext :: (countable) countable
  by (rule countable_classI [of "\<lambda>r. to_nat (prTrack r, PSK r, WalletPrivateKey.more r)"])
    (auto intro: WalletPrivateKey.equality)

definition codec_enc :: "'a :: countable \<Rightarrow> bytes" where
  "codec_enc a = nat_be (to_nat a)"

definition codec_dec :: "bytes \<Rightarrow> gerr + 'a :: countable" where
  "codec_dec bs = Inr (from_nat (be_nat bs))"

lemma codec_dec_enc [simp]: "codec_dec (codec_enc a) = Inr a"
  by (simp add: codec_dec_def codec_enc_def)

text \<open>A codec that gives one chosen value the empty text.\<close>

definition enc_at :: "'a :: countable \<Rightarrow> 'a \<Rightarrow> bytes" where
  "enc_at d a = (if a = d then [] else nat_be (to_nat a + 1))"

definition dec_at :: "'a :: countable \<Rightarrow> bytes \<Rightarrow> gerr + 'a" where
  "dec_at d bs = (if be_nat bs = 0 then Inr d else Inr (from_nat (be_nat bs - 1)))"

lemma dec_at_enc_at [simp]: "dec_at d (enc_at d a) = Inr a"
  by (simp add: dec_at_def enc_at_def del: nat_be.simps)

end
