(* ===== verification/Store.thy ===== *)
theory Store
  imports Codec "HOL-Library.AList"
begin

text \<open>
  \<^verbatim>\<open>db.go\<close> and the state of \<^verbatim>\<open>client.go\<close>: a client, its ten databases and
  every read and write of them.  LevelDB and the JSON codecs are fields of the environment record
  \<open>env\<close>; \<open>ldb_ok\<close> and \<open>json_ok\<close> say what the client relies on.  Every failing read or
  write of LevelDB is a branch of the model.
\<close>

section \<open>LevelDB\<close>

datatype batch_op = BPut bytes bytes | BDelete bytes

text \<open>
  \<^verbatim>\<open>Get\<close> gives an error or a slice (\<open>None\<close> is a nil slice); the writes give an error or
  nothing, with the database they leave; an iterator over everything gives its pairs and then its error.
\<close>

record 'd leveldb =
  ldbGet :: "'d \<Rightarrow> bytes \<Rightarrow> gerr + bytes option"
  ldbPut :: "'d \<Rightarrow> bytes \<Rightarrow> bytes \<Rightarrow> gerr option \<times> 'd"
  ldbDelete :: "'d \<Rightarrow> bytes \<Rightarrow> gerr option \<times> 'd"
  ldbWrite :: "'d \<Rightarrow> batch_op list \<Rightarrow> gerr option \<times> 'd"
  ldbIter :: "'d \<Rightarrow> (bytes \<times> bytes) list"
  ldbIterErr :: "'d \<Rightarrow> gerr option"

fun apply_batch :: "batch_op list \<Rightarrow> (bytes \<Rightarrow> bytes option) \<Rightarrow> (bytes \<Rightarrow> bytes option)" where
  "apply_batch [] m = m"
| "apply_batch (BPut k v # ops) m = apply_batch ops (m(k \<mapsto> v))"
| "apply_batch (BDelete k # ops) m = apply_batch ops (m(k := None))"

text \<open>
  The documented behaviour, through the map a database stands for: reads see the map, a write
  or a batch is applied as a whole or fails and changes nothing, an iterator lists the map.
\<close>

definition ldb_ok :: "'d leveldb \<Rightarrow> ('d \<Rightarrow> bytes \<Rightarrow> bytes option) \<Rightarrow> bool" where
  "ldb_ok L view \<longleftrightarrow>
     (\<forall>d k. ldbGet L d k = (case view d k of None \<Rightarrow> Inl ErrNotFound | Some v \<Rightarrow> Inr (Some v)))
   \<and> (\<forall>d k v. view (snd (ldbPut L d k v)) = (if fst (ldbPut L d k v) = None then (view d)(k \<mapsto> v) else view d))
   \<and> (\<forall>d k. view (snd (ldbDelete L d k)) = (if fst (ldbDelete L d k) = None then (view d)(k := None) else view d))
   \<and> (\<forall>d ops. view (snd (ldbWrite L d ops)) = (if fst (ldbWrite L d ops) = None then apply_batch ops (view d) else view d))
   \<and> (\<forall>d. map_of (ldbIter L d) = view d \<and> distinct (map fst (ldbIter L d)))"

text \<open>An instance: association lists, and no write ever fails.\<close>

fun alist_batch :: "batch_op list \<Rightarrow> (bytes \<times> bytes) list \<Rightarrow> (bytes \<times> bytes) list" where
  "alist_batch [] al = al"
| "alist_batch (BPut k v # ops) al = alist_batch ops (AList.update k v al)"
| "alist_batch (BDelete k # ops) al = alist_batch ops (AList.delete k al)"

definition alist_db :: "(bytes \<times> bytes) list leveldb" where
  "alist_db = \<lparr>ldbGet = (\<lambda>al k. case map_of al k of None \<Rightarrow> Inl ErrNotFound | Some v \<Rightarrow> Inr (Some v)),
     ldbPut = (\<lambda>al k v. (None, AList.update k v al)),
     ldbDelete = (\<lambda>al k. (None, AList.delete k al)),
     ldbWrite = (\<lambda>al ops. (None, alist_batch ops al)),
     ldbIter = AList.clearjunk, ldbIterErr = (\<lambda>al. None)\<rparr>"

lemma map_of_alist_batch: "map_of (alist_batch ops al) = apply_batch ops (map_of al)"
  by (induction ops al rule: alist_batch.induct) (simp_all add: update_conv' delete_conv' fun_upd_def)

lemma ldb_ok_alist_db [simp]: "ldb_ok alist_db map_of"
  by (simp add: ldb_ok_def alist_db_def map_of_alist_batch update_conv' delete_conv' map_of_clearjunk distinct_clearjunk)

section \<open>The environment\<close>

record HashMsg =
  hmAddress :: bytes
  hmHash :: SHA256Sum

text \<open>
  What a client calls outside its own code: SHA-256 and the curve, LevelDB, \<^verbatim>\<open>json\<close>, and a
  peer at an address, dialled and then asked over \<^verbatim>\<open>net/rpc\<close>; the clock; and the floating-point
  step of the retargeting rule, whose conversion to \<^verbatim>\<open>uint64\<close> Go leaves to the machine.
\<close>

record 'd env =
  eHash :: "bytes \<Rightarrow> SHA256Sum"
  eCurve :: curve
  eLdb :: "'d leveldb"
  encH :: "BlockHeader \<Rightarrow> bytes"
  encBk :: "Block \<Rightarrow> bytes"
  encT :: "Txn \<Rightarrow> bytes"
  encB :: "TxnBody \<Rightarrow> bytes"
  encO :: "Output \<Rightarrow> bytes"
  decH :: "bytes \<Rightarrow> gerr + BlockHeader"
  decBk :: "bytes \<Rightarrow> gerr + Block"
  decT :: "bytes \<Rightarrow> gerr + Txn"
  eDial :: "bytes \<Rightarrow> gerr option"
  askBlock :: "bytes \<Rightarrow> HashMsg \<Rightarrow> gerr + Block"
  askHeader :: "bytes \<Rightarrow> HashMsg \<Rightarrow> gerr + BlockHeader"
  askTxn :: "bytes \<Rightarrow> HashMsg \<Rightarrow> gerr + Txn"
  askOutput :: "bytes \<Rightarrow> HashMsg \<Rightarrow> gerr + Output"
  eNow :: go_time
  eRetarget :: "u64 \<Rightarrow> int \<Rightarrow> u64"

text \<open>What is written as JSON is read back.\<close>

definition json_ok :: "'d env \<Rightarrow> bool" where
  "json_ok E \<longleftrightarrow> (\<forall>h. decH E (encH E h) = Inr h) \<and> (\<forall>b. decBk E (encBk E b) = Inr b) \<and> (\<forall>t. decT E (encT E t) = Inr t)"

abbreviation header_hash :: "'d env \<Rightarrow> BlockHeader \<Rightarrow> SHA256Sum" where
  "header_hash E \<equiv> BlockHeader_Hash (eHash E) (encH E)"

abbreviation output_hash :: "'d env \<Rightarrow> Output \<Rightarrow> SHA256Sum" where
  "output_hash E \<equiv> Output_Hash (eHash E) (encO E)"

definition Txn_Hash :: "'d env \<Rightarrow> Txn \<Rightarrow> SHA256Sum" where
  "Txn_Hash E txn = eHash E (encT E txn)"

text \<open>\<^verbatim>\<open>Hash(txn.Sig.Preimage.Bytes())\<close>, which panics on a nil coordinate.\<close>

definition pimg_hash :: "'d env \<Rightarrow> Txn \<Rightarrow> SHA256Sum res" where
  "pimg_hash E txn = res_bind (ECCPoint_Bytes (zPreimage (txSig txn))) (\<lambda>bs. Ok (eHash E bs))"

section \<open>The client\<close>

datatype ClientType = BLOCKCHAIN_CLIENT | SVP_CLIENT

record 'd DBManager =
  headerDB :: 'd
  sideHeaderDB :: 'd
  orphanHeaderDB :: 'd
  blockDB :: 'd
  sideBlockDB :: 'd
  orphanBlockDB :: 'd
  mapDB :: 'd
  pimgDB :: 'd
  peerDB :: 'd
  txnPoolDB :: 'd

text \<open>The goroutines a client starts and does not wait for, in the order it starts them.\<close>

datatype bcast_method = BcastBlockRPC | BcastTxnRPC

datatype spawn =
    WalletNewBlock Block
  | WalletSwap "Block list" "Block list"
  | SendBcast bcast_method bytes SHA256Sum

record 'd Client =
  cType :: ClientType
  LastHeader :: BlockHeader
  UpdateWallet :: bool
  cAddress :: bytes
  dbm :: "'d DBManager"
  spawned :: "spawn list"

definition spawn_go :: "spawn \<Rightarrow> ('d Client, unit) go" where
  "spawn_go g = go_modify (\<lambda>c. c\<lparr>spawned := spawned c @ [g]\<rparr>)"

section \<open>Reads and writes of one database\<close>

definition db_get :: "'d env \<Rightarrow> 'd \<Rightarrow> bytes \<Rightarrow> bytes option res" where
  "db_get E d k = (case ldbGet (eLdb E) d k of Inl e \<Rightarrow> Err e | Inr v \<Rightarrow> Ok v)"

text \<open>A slice is read as its bytes; a nil slice has none.\<close>

definition slice :: "bytes option \<Rightarrow> bytes" where
  "slice v = (case v of None \<Rightarrow> [] | Some bs \<Rightarrow> bs)"

definition of_sum :: "gerr + 'a \<Rightarrow> 'a res" where
  "of_sum r = (case r of Inl e \<Rightarrow> Err e | Inr a \<Rightarrow> Ok a)"

definition db_upd :: "('d \<Rightarrow> gerr option \<times> 'd) \<Rightarrow> ('d DBManager \<Rightarrow> 'd) \<Rightarrow> (('d \<Rightarrow> 'd) \<Rightarrow> 'd DBManager \<Rightarrow> 'd DBManager)
    \<Rightarrow> ('d Client, unit) go" where
  "db_upd w sel upd = (\<lambda>c. case w (sel (dbm c)) of (e, d) \<Rightarrow>
     ((case e of None \<Rightarrow> Ok () | Some err \<Rightarrow> Err err), c\<lparr>dbm := upd (\<lambda>_. d) (dbm c)\<rparr>))"

text \<open>\<^verbatim>\<open>json.Unmarshal\<close> into a nil pointer is an error whatever the document.\<close>

definition unmarshal_nil :: "bytes \<Rightarrow> 'a option res" where
  "unmarshal_nil bs = Err ErrUnmarshal"

section \<open>Header databases\<close>

definition GetHeader :: "'d env \<Rightarrow> 'd Client \<Rightarrow> SHA256Sum \<Rightarrow> BlockHeader option res" where
  "GetHeader E c hash =
     res_bind (db_get E (headerDB (dbm c)) (sum_bytes hash)) (\<lambda>headerBytes.
       case headerBytes of None \<Rightarrow> Ok None
       | Some bs \<Rightarrow> res_bind (of_sum (decH E bs)) (\<lambda>header. Ok (Some header)))"

definition ExtendHeader :: "'d env \<Rightarrow> BlockHeader \<Rightarrow> ('d Client, unit) go" where
  "ExtendHeader E header =
     (let hash = header_hash E header
      in db_upd (\<lambda>d. ldbWrite (eLdb E) d [BPut (sum_bytes hash) (encH E header), BDelete (sum_bytes (bhPrevHash header))])
           headerDB headerDB_update)"

definition PutHeader :: "'d env \<Rightarrow> BlockHeader \<Rightarrow> ('d Client, unit) go" where
  "PutHeader E header =
     (let hash = header_hash E header
      in db_upd (\<lambda>d. ldbPut (eLdb E) d (sum_bytes hash) (encH E header)) headerDB headerDB_update)"

definition GetSideHeader :: "'d env \<Rightarrow> 'd Client \<Rightarrow> SHA256Sum \<Rightarrow> BlockHeader option res" where
  "GetSideHeader E c hash =
     res_bind (db_get E (sideHeaderDB (dbm c)) (sum_bytes hash)) (\<lambda>headerBytes.
       case headerBytes of None \<Rightarrow> Ok None | Some bs \<Rightarrow> unmarshal_nil bs)"

definition PutSideHeader :: "'d env \<Rightarrow> BlockHeader \<Rightarrow> ('d Client, unit) go" where
  "PutSideHeader E header =
     (let hash = header_hash E header
      in db_upd (\<lambda>d. ldbPut (eLdb E) d (sum_bytes hash) (encH E header)) sideHeaderDB sideHeaderDB_update)"

definition GetOrphanHeader :: "'d env \<Rightarrow> 'd Client \<Rightarrow> SHA256Sum \<Rightarrow> BlockHeader option res" where
  "GetOrphanHeader E c hash =
     res_bind (db_get E (orphanHeaderDB (dbm c)) (sum_bytes hash)) (\<lambda>headerBytes.
       case headerBytes of None \<Rightarrow> Ok None | Some bs \<Rightarrow> unmarshal_nil bs)"

definition PutOrphanHeader :: "'d env \<Rightarrow> BlockHeader \<Rightarrow> ('d Client, unit) go" where
  "PutOrphanHeader E header =
     (let hash = header_hash E header
      in db_upd (\<lambda>d. ldbPut (eLdb E) d (sum_bytes hash) (encH E header)) orphanHeaderDB orphanHeaderDB_update)"

section \<open>Block databases\<close>

definition GetBlock :: "'d env \<Rightarrow> 'd Client \<Rightarrow> SHA256Sum \<Rightarrow> Block option res" where
  "GetBlock E c hash =
     res_bind (db_get E (blockDB (dbm c)) (sum_bytes hash)) (\<lambda>blockBytes.
       res_bind (of_sum (decBk E (slice blockBytes))) (\<lambda>block. Ok (Some block)))"

definition PutBlock :: "'d env \<Rightarrow> Block \<Rightarrow> ('d Client, unit) go" where
  "PutBlock E block =
     (let hash = header_hash E (bkHeader block)
      in db_upd (\<lambda>d. ldbPut (eLdb E) d (sum_bytes hash) (encBk E block)) blockDB blockDB_update)"

definition GetSideBlock :: "'d env \<Rightarrow> 'd Client \<Rightarrow> SHA256Sum \<Rightarrow> Block option res" where
  "GetSideBlock E c hash =
     res_bind (db_get E (sideBlockDB (dbm c)) (sum_bytes hash)) (\<lambda>sblockBytes. unmarshal_nil (slice sblockBytes))"

definition PutSideBlock :: "'d env \<Rightarrow> Block \<Rightarrow> ('d Client, unit) go" where
  "PutSideBlock E block =
     (let hash = header_hash E (bkHeader block)
      in db_upd (\<lambda>d. ldbPut (eLdb E) d (sum_bytes hash) (encBk E block)) sideBlockDB sideBlockDB_update)"

definition GetOrphanBlock :: "'d env \<Rightarrow> 'd Client \<Rightarrow> SHA256Sum \<Rightarrow> Block option res" where
  "GetOrphanBlock E c hash =
     res_bind (db_get E (orphanBlockDB (dbm c)) (sum_bytes hash)) (\<lambda>oblockBytes. unmarshal_nil (slice oblockBytes))"

definition PutOrphanBlock :: "'d env \<Rightarrow> Block \<Rightarrow> ('d Client, unit) go" where
  "PutOrphanBlock E block =
     (let hash = header_hash E (bkHeader block)
      in db_upd (\<lambda>d. ldbPut (eLdb E) d (sum_bytes hash) (encBk E block)) orphanBlockDB orphanBlockDB_update)"

section \<open>Preimages, the map to blocks, peers and the transaction pool\<close>

definition GetPreimage :: "'d env \<Rightarrow> 'd Client \<Rightarrow> SHA256Sum \<Rightarrow> bool" where
  "GetPreimage E c hash =
     (case ldbGet (eLdb E) (pimgDB (dbm c)) (sum_bytes hash) of
        Inl e \<Rightarrow> False
      | Inr preimageBytes \<Rightarrow>
          if length (slice preimageBytes) \<noteq> 32 then False
          else list_all (\<lambda>i. sum_bytes hash ! i = slice preimageBytes ! i) [0..<32])"

definition PutPreimage :: "'d env \<Rightarrow> SHA256Sum \<Rightarrow> ('d Client, unit) go" where
  "PutPreimage E hash = db_upd (\<lambda>d. ldbPut (eLdb E) d (sum_bytes hash) (sum_bytes hash)) pimgDB pimgDB_update"

definition MapToBlock :: "'d env \<Rightarrow> 'd Client \<Rightarrow> SHA256Sum \<Rightarrow> SHA256Sum res" where
  "MapToBlock E c hash =
     res_bind (db_get E (mapDB (dbm c)) (sum_bytes hash)) (\<lambda>hashBytes.
       if length (slice hashBytes) \<noteq> 32 then Err (ErrMsg ''Invalid hash length'')
       else Ok (bytes_sum (slice hashBytes)))"

text \<open>
  The keys that \<^verbatim>\<open>PutMapToBlock\<close> puts into its batch and \<^verbatim>\<open>DeleteMapToBlock\<close>
  deletes, transaction by transaction: the preimage's hash, except for the coinbase, and the outputs' hashes.
\<close>

fun map_keys :: "'d env \<Rightarrow> nat \<Rightarrow> Txn list \<Rightarrow> SHA256Sum list res" where
  "map_keys E i [] = Ok []"
| "map_keys E i (txn # txns) =
     res_bind (if i \<noteq> 0 then res_bind (pimg_hash E txn) (\<lambda>pimgHash. Ok [pimgHash]) else Ok []) (\<lambda>pimgs.
       res_bind (map_keys E (Suc i) txns) (\<lambda>rest.
         Ok (pimgs @ map (output_hash E) (tbOutputs (txBody txn)) @ rest)))"

definition PutMapToBlock :: "'d env \<Rightarrow> Block \<Rightarrow> ('d Client, unit) go" where
  "PutMapToBlock E block =
     (let blockHash = header_hash E (bkHeader block)
      in go_bind (go_read (\<lambda>c. map_keys E 0 (bkTxns block))) (\<lambda>keys.
           let batch = map (\<lambda>h. BPut (sum_bytes h) (sum_bytes blockHash)) keys
           in db_upd (\<lambda>d. ldbWrite (eLdb E) d batch) mapDB mapDB_update))"

definition DeleteMapToBlock :: "'d env \<Rightarrow> Block \<Rightarrow> ('d Client, unit) go" where
  "DeleteMapToBlock E block =
     go_bind (go_read (\<lambda>c. map_keys E 0 (bkTxns block))) (\<lambda>keys.
       let batch = map (\<lambda>h. BDelete (sum_bytes h)) keys
       in db_upd (\<lambda>d. ldbWrite (eLdb E) d batch) mapDB mapDB_update)"

definition PutPeer :: "'d env \<Rightarrow> bytes \<Rightarrow> ('d Client, unit) go" where
  "PutPeer E address = db_upd (\<lambda>d. ldbPut (eLdb E) d address []) peerDB peerDB_update"

definition GetTxnPool :: "'d env \<Rightarrow> 'd Client \<Rightarrow> SHA256Sum \<Rightarrow> Txn option res" where
  "GetTxnPool E c hash =
     res_bind (db_get E (txnPoolDB (dbm c)) (sum_bytes hash)) (\<lambda>txnBytes.
       res_bind (of_sum (decT E (slice txnBytes))) (\<lambda>txn. Ok (Some txn)))"

definition PutTxnPool :: "'d env \<Rightarrow> Txn \<Rightarrow> ('d Client, unit) go" where
  "PutTxnPool E txn =
     (let hash = Txn_Hash E txn
      in db_upd (\<lambda>d. ldbPut (eLdb E) d (sum_bytes hash) (encT E txn)) txnPoolDB txnPoolDB_update)"

definition DeleteTxnPool :: "'d env \<Rightarrow> Txn \<Rightarrow> ('d Client, unit) go" where
  "DeleteTxnPool E txn =
     (let hash = Txn_Hash E txn
      in db_upd (\<lambda>d. ldbDelete (eLdb E) d (sum_bytes hash)) txnPoolDB txnPoolDB_update)"

section \<open>What the databases promise\<close>

lemma db_upd_simps [simp, go_simps]:
  "fst (db_upd w sel upd c) = (case fst (w (sel (dbm c))) of None \<Rightarrow> Ok () | Some e \<Rightarrow> Err e)"
  "snd (db_upd w sel upd c) = c\<lparr>dbm := upd (\<lambda>_. snd (w (sel (dbm c)))) (dbm c)\<rparr>"
  by (simp_all add: db_upd_def split: prod.splits)

lemma db_upd_cases:
  "db_upd w sel upd c = ((case fst (w (sel (dbm c))) of None \<Rightarrow> Ok () | Some e \<Rightarrow> Err e),
     c\<lparr>dbm := upd (\<lambda>_. snd (w (sel (dbm c)))) (dbm c)\<rparr>)"
  by (simp add: db_upd_def split: prod.splits)

definition env_ok :: "'d env \<Rightarrow> bool" where
  "env_ok E \<longleftrightarrow> json_ok E \<and> (\<exists>view. ldb_ok (eLdb E) view)"

lemma ldb_get_put:
  assumes "ldb_ok L view"
  shows "ldbGet L (snd (ldbPut L d k v)) k' =
    (if fst (ldbPut L d k v) = None \<and> k' = k then Inr (Some v) else ldbGet L d k')"
  using assms by (auto simp: ldb_ok_def)

lemma ldb_get_delete:
  assumes "ldb_ok L view"
  shows "ldbGet L (snd (ldbDelete L d k)) k' =
    (if fst (ldbDelete L d k) = None \<and> k' = k then Inl ErrNotFound else ldbGet L d k')"
  using assms by (auto simp: ldb_ok_def)

lemma ldb_get_write_failed:
  "ldb_ok L view \<Longrightarrow> fst (ldbWrite L d ops) = Some e \<Longrightarrow> ldbGet L (snd (ldbWrite L d ops)) k = ldbGet L d k"
  by (auto simp: ldb_ok_def)

lemma apply_puts: "apply_batch (map (\<lambda>h. BPut (f h) v) ks) m = (\<lambda>k. if k \<in> f ` set ks then Some v else m k)"
  by (induction ks arbitrary: m) auto

lemma apply_deletes: "apply_batch (map (\<lambda>h. BDelete (f h)) ks) m = (\<lambda>k. if k \<in> f ` set ks then None else m k)"
  by (induction ks arbitrary: m) auto

lemma ldb_get_puts:
  assumes "ldb_ok L view" "fst (ldbWrite L d (map (\<lambda>h. BPut (f h) v) ks)) = None"
  shows "ldbGet L (snd (ldbWrite L d (map (\<lambda>h. BPut (f h) v) ks))) k =
    (if k \<in> f ` set ks then Inr (Some v) else ldbGet L d k)"
  using assms by (auto simp: ldb_ok_def apply_puts)

lemma ldb_get_deletes:
  assumes "ldb_ok L view" "fst (ldbWrite L d (map (\<lambda>h. BDelete (f h)) ks)) = None"
  shows "ldbGet L (snd (ldbWrite L d (map (\<lambda>h. BDelete (f h)) ks))) k =
    (if k \<in> f ` set ks then Inl ErrNotFound else ldbGet L d k)"
  using assms by (auto simp: ldb_ok_def apply_deletes)

text \<open>
  The contract of a table of the client: a successful put is read back under its key, other keys
  and failed puts change nothing.
\<close>

locale table =
  fixes ok :: "'e \<Rightarrow> bool"
    and get :: "'e \<Rightarrow> 'c \<Rightarrow> SHA256Sum \<Rightarrow> 'v option res"
    and put :: "'e \<Rightarrow> 'v \<Rightarrow> ('c, unit) go"
    and key :: "'e \<Rightarrow> 'v \<Rightarrow> SHA256Sum"
  assumes get_put: "ok E \<Longrightarrow> get E (snd (put E v c)) k =
      (if fst (put E v c) = Ok () \<and> k = key E v then Ok (Some v) else get E c k)"
begin

lemma get_put_same: "ok E \<Longrightarrow> fst (put E v c) = Ok () \<Longrightarrow> get E (snd (put E v c)) (key E v) = Ok (Some v)"
  by (simp add: get_put)

lemma found_stays:
  "ok E \<Longrightarrow> get E c k = Ok (Some u) \<Longrightarrow> \<exists>u'. get E (snd (put E v c)) k = Ok (Some u') \<and> (u' = u \<or> k = key E v \<and> u' = v)"
  by (simp add: get_put)

lemma put_put_commute:
  assumes "ok E" "key E u \<noteq> key E v" "fst (put E u c) = Ok ()" "fst (put E v c) = Ok ()"
    "fst (put E v (snd (put E u c))) = Ok ()" "fst (put E u (snd (put E v c))) = Ok ()"
  shows "get E (snd (put E v (snd (put E u c)))) k = get E (snd (put E u (snd (put E v c)))) k"
  using assms by (simp add: get_put)

end

interpretation header_table: table env_ok GetHeader PutHeader "\<lambda>E. header_hash E"
  by unfold_locales
    (auto simp: GetHeader_def PutHeader_def env_ok_def json_ok_def db_get_def of_sum_def ldb_get_put Let_def split: option.splits)

interpretation block_table: table env_ok GetBlock PutBlock "\<lambda>E b. header_hash E (bkHeader b)"
  by unfold_locales
    (auto simp: GetBlock_def PutBlock_def env_ok_def json_ok_def db_get_def of_sum_def slice_def ldb_get_put Let_def split: option.splits)

interpretation pool_table: table env_ok GetTxnPool PutTxnPool Txn_Hash
  by unfold_locales
    (auto simp: GetTxnPool_def PutTxnPool_def env_ok_def json_ok_def db_get_def of_sum_def slice_def ldb_get_put Let_def split: option.splits)

lemma read_simps:
  "env_ok E \<Longrightarrow> MapToBlock E c h = (case ldbGet (eLdb E) (mapDB (dbm c)) (sum_bytes h) of
      Inl e \<Rightarrow> Err e
    | Inr v \<Rightarrow> if length (slice v) \<noteq> 32 then Err (ErrMsg ''Invalid hash length'') else Ok (bytes_sum (slice v)))"
  by (simp add: MapToBlock_def db_get_def split: sum.splits)

lemma GetPreimage_iff:
  "GetPreimage E c h \<longleftrightarrow> (\<exists>v. ldbGet (eLdb E) (pimgDB (dbm c)) (sum_bytes h) = Inr v \<and> slice v = sum_bytes h)"
  by (auto simp: GetPreimage_def list_all_iff intro: nth_equalityI split: sum.splits)

lemma MapToBlock_PutMapToBlock:
  assumes "env_ok E" "map_keys E 0 (bkTxns b) = Ok keys" "PutMapToBlock E b c = (Ok (), c')"
  shows "MapToBlock E c' h = (if h \<in> set keys then Ok (header_hash E (bkHeader b)) else MapToBlock E c h)"
proof -
  obtain view where view: "ldb_ok (eLdb E) view" using assms(1) by (auto simp: env_ok_def)
  let ?ops = "map (\<lambda>h. BPut (sum_bytes h) (sum_bytes (header_hash E (bkHeader b)))) keys"
  have "fst (ldbWrite (eLdb E) (mapDB (dbm c)) ?ops) = None"
    and "mapDB (dbm c') = snd (ldbWrite (eLdb E) (mapDB (dbm c)) ?ops)"
    using assms(2,3) by (auto simp: PutMapToBlock_def Let_def go_bind_read db_upd_cases split: option.splits)
  then show ?thesis
    using assms(1) ldb_get_puts [OF view, of "mapDB (dbm c)" sum_bytes "sum_bytes (header_hash E (bkHeader b))" keys "sum_bytes h"]
    by (auto simp: read_simps slice_def image_iff)
qed

lemma MapToBlock_DeleteMapToBlock:
  assumes "env_ok E" "map_keys E 0 (bkTxns b) = Ok keys" "DeleteMapToBlock E b c = (Ok (), c')"
  shows "MapToBlock E c' h = (if h \<in> set keys then Err ErrNotFound else MapToBlock E c h)"
proof -
  obtain view where view: "ldb_ok (eLdb E) view" using assms(1) by (auto simp: env_ok_def)
  let ?ops = "map (\<lambda>h. BDelete (sum_bytes h)) keys"
  have "fst (ldbWrite (eLdb E) (mapDB (dbm c)) ?ops) = None"
    and "mapDB (dbm c') = snd (ldbWrite (eLdb E) (mapDB (dbm c)) ?ops)"
    using assms(2,3) by (auto simp: DeleteMapToBlock_def Let_def go_bind_read db_upd_cases split: option.splits)
  then show ?thesis
    using assms(1) ldb_get_deletes [OF view, of "mapDB (dbm c)" sum_bytes keys "sum_bytes h"]
    by (auto simp: read_simps image_iff)
qed

lemma map_keys_set: "map_keys E (Suc i) txns = Ok ks \<Longrightarrow>
    set ks = {p. \<exists>t \<in> set txns. pimg_hash E t = Ok p} \<union> (\<Union>t \<in> set txns. output_hash E ` set (tbOutputs (txBody t)))"
proof (induction txns arbitrary: i ks)
  case (Cons t txns)
  then obtain p ks' where "pimg_hash E t = Ok p" "map_keys E (Suc (Suc i)) txns = Ok ks'"
    "ks = p # map (output_hash E) (tbOutputs (txBody t)) @ ks'"
    by (auto simp: res_bind_eq_Ok)
  with Cons.IH [of "Suc i" ks'] show ?case by auto
qed simp

text \<open>What is recorded of a block: all its outputs, and the preimages of the transactions after the first.\<close>

lemma map_keys_recorded:
  assumes "map_keys E 0 txns = Ok ks"
  shows "set ks = (\<Union>t \<in> set txns. output_hash E ` set (tbOutputs (txBody t))) \<union> {p. \<exists>t \<in> set (tl txns). pimg_hash E t = Ok p}"
    and "\<forall>t \<in> set (tl txns). \<exists>p. pimg_hash E t = Ok p"
proof -
  have later: "map_keys E (Suc i) ts = Ok ks' \<Longrightarrow> \<forall>t \<in> set ts. \<exists>p. pimg_hash E t = Ok p" for i ts ks'
    by (induction ts arbitrary: i ks') (auto simp: res_bind_eq_Ok)
  have "set ks = (\<Union>t \<in> set txns. output_hash E ` set (tbOutputs (txBody t))) \<union> {p. \<exists>t \<in> set (tl txns). pimg_hash E t = Ok p}
    \<and> (\<forall>t \<in> set (tl txns). \<exists>p. pimg_hash E t = Ok p)"
  proof (cases txns)
    case (Cons t ts)
    then obtain ks' where "map_keys E (Suc 0) ts = Ok ks'" "ks = map (output_hash E) (tbOutputs (txBody t)) @ ks'"
      using assms by (auto simp: res_bind_eq_Ok)
    then show ?thesis using map_keys_set [of E 0 ts ks'] later [of 0 ts ks'] Cons by auto
  qed (use assms in simp)
  then show "set ks = (\<Union>t \<in> set txns. output_hash E ` set (tbOutputs (txBody t))) \<union> {p. \<exists>t \<in> set (tl txns). pimg_hash E t = Ok p}"
    "\<forall>t \<in> set (tl txns). \<exists>p. pimg_hash E t = Ok p" by blast+
qed

text \<open>Reading a side or an orphan table never gives anything.\<close>

lemma db_get_cases:
  assumes "env_ok E"
  shows "db_get E d k = Err ErrNotFound \<or> (\<exists>v. db_get E d k = Ok (Some v))"
proof -
  obtain view where "ldb_ok (eLdb E) view" using assms by (auto simp: env_ok_def)
  then have "ldbGet (eLdb E) d k = (case view d k of None \<Rightarrow> Inl ErrNotFound | Some v \<Rightarrow> Inr (Some v))"
    by (simp add: ldb_ok_def)
  then show ?thesis by (cases "view d k") (simp_all add: db_get_def)
qed

lemma side_reads:
  assumes "env_ok E"
  shows "GetSideHeader E c h \<in> {Err ErrNotFound, Err ErrUnmarshal}"
    and "GetOrphanHeader E c h \<in> {Err ErrNotFound, Err ErrUnmarshal}"
    and "GetSideBlock E c h \<in> {Err ErrNotFound, Err ErrUnmarshal}"
    and "GetOrphanBlock E c h \<in> {Err ErrNotFound, Err ErrUnmarshal}"
  using db_get_cases [OF assms, of "sideHeaderDB (dbm c)" "sum_bytes h"]
    db_get_cases [OF assms, of "orphanHeaderDB (dbm c)" "sum_bytes h"]
    db_get_cases [OF assms, of "sideBlockDB (dbm c)" "sum_bytes h"]
    db_get_cases [OF assms, of "orphanBlockDB (dbm c)" "sum_bytes h"]
  by (auto simp: GetSideHeader_def GetOrphanHeader_def GetSideBlock_def GetOrphanBlock_def unmarshal_nil_def)

lemma of_sum_cases:
  obtains e where "of_sum r = Err e" | a where "of_sum r = Ok a"
  by (cases r) (simp_all add: of_sum_def)

lemma GetHeader_cases:
  assumes "env_ok E"
  obtains e where "GetHeader E c h = Err e" | hd where "GetHeader E c h = Ok (Some hd)"
proof (cases "\<exists>v. db_get E (headerDB (dbm c)) (sum_bytes h) = Ok (Some v)")
  case True
  then obtain v where "db_get E (headerDB (dbm c)) (sum_bytes h) = Ok (Some v)" by blast
  with that show thesis by (cases rule: of_sum_cases [of "decH E v"]) (simp_all add: GetHeader_def)
next
  case False
  with that db_get_cases [OF assms, of "headerDB (dbm c)" "sum_bytes h"] show thesis by (auto simp: GetHeader_def)
qed

lemma GetBlock_cases:
  assumes "env_ok E"
  obtains e where "GetBlock E c h = Err e" | b where "GetBlock E c h = Ok (Some b)"
proof (cases "\<exists>v. db_get E (blockDB (dbm c)) (sum_bytes h) = Ok (Some v)")
  case True
  then obtain v where "db_get E (blockDB (dbm c)) (sum_bytes h) = Ok (Some v)" by blast
  with that show thesis by (cases rule: of_sum_cases [of "decBk E v"]) (simp_all add: GetBlock_def slice_def)
next
  case False
  with that db_get_cases [OF assms, of "blockDB (dbm c)" "sum_bytes h"] show thesis by (auto simp: GetBlock_def)
qed

lemma GetHeader_not_nil: "env_ok E \<Longrightarrow> GetHeader E c h \<noteq> Ok None \<and> GetHeader E c h \<noteq> Panic"
  by (rule GetHeader_cases [of E c h]) auto

section \<open>A concrete environment\<close>

definition demo_env :: "(bytes \<times> bytes) list env" where
  "demo_env = \<lparr>eHash = (\<lambda>bs. 7), eCurve = log_curve, eLdb = alist_db, encH = codec_enc, encBk = codec_enc,
     encT = codec_enc, encB = codec_enc, encO = codec_enc, decH = codec_dec, decBk = codec_dec, decT = codec_dec,
     eDial = (\<lambda>a. None), askBlock = (\<lambda>a m. Inl ErrNet), askHeader = (\<lambda>a m. Inl ErrNet), askTxn = (\<lambda>a m. Inl ErrNet),
     askOutput = (\<lambda>a m. Inl ErrNet), eNow = \<lparr>tmNano = 0, tmZone = 0\<rparr>, eRetarget = (\<lambda>d t. d)\<rparr>"

lemma env_ok_demo_env [simp]: "env_ok demo_env"
  unfolding env_ok_def json_ok_def demo_env_def by (auto intro: exI [of _ map_of])

definition demo_header :: BlockHeader where
  "demo_header = \<lparr>bhSeqNum = 0, bhPrevHash = 0, bhMerkleRoot = 7, bhTime = \<lparr>tmNano = 0, tmZone = 0\<rparr>,
     bhDifficulty = 16, bhNonce = 0\<rparr>"

definition demo_client :: "(bytes \<times> bytes) list Client" where
  "demo_client = \<lparr>cType = BLOCKCHAIN_CLIENT, LastHeader = demo_header, UpdateWallet = False, cAddress = [],
     dbm = \<lparr>headerDB = [], sideHeaderDB = [], orphanHeaderDB = [], blockDB = [], sideBlockDB = [], orphanBlockDB = [],
       mapDB = [], pimgDB = [], peerDB = [], txnPoolDB = []\<rparr>, spawned = []\<rparr>"

definition demo_coinbase :: Txn where
  "demo_coinbase = \<lparr>txBody = \<lparr>tbInputs = [0], tbOutputs = [demo_output], tbFee = 0\<rparr>, txSig = zero_sig\<rparr>"

definition demo_block :: Block where
  "demo_block = \<lparr>bkHeader = demo_header, bkTxns = [demo_coinbase]\<rparr>"

section \<open>Properties\<close>

text \<open>
  C23: Writing a block into the map database and taking it out again is exact: after a successful
  \<^verbatim>\<open>PutMapToBlock\<close> the hashes of the block's outputs (the coinbase's included) and of the preimages of its transactions
  after the coinbase, all of which are then present, and no other hashes, lead to the block's hash; after a following
  \<^verbatim>\<open>DeleteMapToBlock\<close> none of them is found and everything else is as it was.
\<close>

theorem map_to_block_roundtrip:
  assumes "env_ok E" and "PutMapToBlock E b c = (Ok (), c1)" and "DeleteMapToBlock E b c1 = (Ok (), c2)"
    and "outs = {eHash E (encO E o1) | o1 t. t \<in> set (bkTxns b) \<and> o1 \<in> set (tbOutputs (txBody t))}"
    and "pimgs = {eHash E (point_Bytes p) | p t. t \<in> set (tl (bkTxns b)) \<and> coords (zPreimage (txSig t)) = Some p}"
  shows "MapToBlock E c1 h = (if h \<in> outs \<union> pimgs then Ok (header_hash E (bkHeader b)) else MapToBlock E c h)
    \<and> MapToBlock E c2 h = (if h \<in> outs \<union> pimgs then Err ErrNotFound else MapToBlock E c h)
    \<and> (\<forall>t \<in> set (tl (bkTxns b)). \<not> ECCPoint_Empty (zPreimage (txSig t)))"
proof -
  obtain keys where keys: "map_keys E 0 (bkTxns b) = Ok keys"
    using assms(2) by (cases "map_keys E 0 (bkTxns b)") (auto simp: PutMapToBlock_def Let_def go_bind_read)
  have pimg: "pimg_hash E t = Ok p \<longleftrightarrow> (\<exists>q. coords (zPreimage (txSig t)) = Some q \<and> p = eHash E (point_Bytes q))" for t p
    by (auto simp: pimg_hash_def ECCPoint_Bytes_def deref_def split: option.splits)
  have "set keys = outs \<union> pimgs"
    unfolding map_keys_recorded(1) [OF keys] assms(4,5) by (auto simp: pimg Output_Hash_def)
  moreover have "\<forall>t \<in> set (tl (bkTxns b)). \<not> ECCPoint_Empty (zPreimage (txSig t))"
    using map_keys_recorded(2) [OF keys] unfolding pimg by (metis coords_None_iff option.distinct(1))
  ultimately show ?thesis
    using MapToBlock_PutMapToBlock [OF assms(1) keys assms(2)] MapToBlock_DeleteMapToBlock [OF assms(1) keys assms(3)] by simp
qed

text \<open>A block with a coinbase and a payment; outputs hash to 5, the payment's preimage to 2.\<close>

definition length_env :: "(bytes \<times> bytes) list env" where
  "length_env = demo_env\<lparr>eHash := \<lambda>bs. of_nat (length bs), encO := \<lambda>o1. [0, 0, 0, 0, 0]\<rparr>"

definition paying_block :: Block where
  "paying_block = \<lparr>bkHeader = demo_header, bkTxns = [demo_coinbase, demo_coinbase\<lparr>txSig := zero_sig\<lparr>zPreimage := pt (1, 1)\<rparr>\<rparr>]\<rparr>"

theorem map_to_block_roundtrip_witness:
  "\<exists>c1 c2. PutMapToBlock length_env paying_block demo_client = (Ok (), c1) \<and> DeleteMapToBlock length_env paying_block c1 = (Ok (), c2)
    \<and> MapToBlock length_env c1 5 = Ok (header_hash length_env demo_header) \<and> MapToBlock length_env c1 2 = Ok (header_hash length_env demo_header)
    \<and> MapToBlock length_env c1 3 = Err ErrNotFound \<and> MapToBlock length_env c2 5 = Err ErrNotFound"
proof -
  have env: "env_ok length_env"
    using env_ok_demo_env by (simp add: env_ok_def json_ok_def length_env_def)
  have one: "int_be 1 = [1]" by (simp add: int_be_def nat_be.simps)
  have keys: "map_keys length_env 0 (bkTxns paying_block) = Ok [5, 2, 5]"
    by (simp add: paying_block_def demo_coinbase_def Output_Hash_def length_env_def pimg_hash_def ECCPoint_Bytes_def point_Bytes_def one deref_def)
  have w: "fst (PutMapToBlock length_env paying_block c) = Ok ()" "fst (DeleteMapToBlock length_env paying_block c) = Ok ()" for c
    using keys by (simp_all add: PutMapToBlock_def DeleteMapToBlock_def Let_def go_bind_read db_upd_cases length_env_def demo_env_def alist_db_def)
  obtain c1 where c1: "PutMapToBlock length_env paying_block demo_client = (Ok (), c1)" using w(1) by (metis prod.collapse)
  obtain c2 where c2: "DeleteMapToBlock length_env paying_block c1 = (Ok (), c2)" using w(2) by (metis prod.collapse)
  have "MapToBlock length_env demo_client h = Err ErrNotFound" for h
    by (simp add: MapToBlock_def db_get_def demo_client_def length_env_def demo_env_def alist_db_def)
  moreover have "{eHash length_env (encO length_env o1) | o1 t. t \<in> set (bkTxns paying_block) \<and> o1 \<in> set (tbOutputs (txBody t))} = {5}"
    by (fastforce simp: length_env_def paying_block_def demo_coinbase_def)
  moreover have "{eHash length_env (point_Bytes p) | p t. t \<in> set (tl (bkTxns paying_block)) \<and> coords (zPreimage (txSig t)) = Some p} = {2}"
    by (auto simp: length_env_def paying_block_def point_Bytes_def one)
  ultimately show ?thesis
    using map_to_block_roundtrip [OF env c1 c2 refl refl] c1 c2 by (auto simp: paying_block_def)
qed

text \<open>
  The transaction pool is a table keyed by transaction hash: a stored transaction is read back, the
  other entries are untouched, deleting removes exactly that entry, and a failed write changes no read.
\<close>

lemma txn_pool_put_delete:
  assumes "env_ok E"
  shows "GetTxnPool E (snd (PutTxnPool E txn c)) h =
      (if fst (PutTxnPool E txn c) = Ok () \<and> h = Txn_Hash E txn then Ok (Some txn) else GetTxnPool E c h)
    \<and> GetTxnPool E (snd (DeleteTxnPool E txn c)) h =
      (if fst (DeleteTxnPool E txn c) = Ok () \<and> h = Txn_Hash E txn then Err ErrNotFound else GetTxnPool E c h)"
proof -
  obtain view where view: "ldb_ok (eLdb E) view" using assms by (auto simp: env_ok_def)
  have "GetTxnPool E (snd (DeleteTxnPool E txn c)) h =
      (if fst (DeleteTxnPool E txn c) = Ok () \<and> h = Txn_Hash E txn then Err ErrNotFound else GetTxnPool E c h)"
    using ldb_get_delete [OF view, of "txnPoolDB (dbm c)"]
    by (auto simp: GetTxnPool_def DeleteTxnPool_def Let_def db_get_def split: option.splits)
  with pool_table.get_put [OF assms] show ?thesis by blast
qed

lemma txn_pool_put_delete_witness:
  "GetTxnPool demo_env (snd (PutTxnPool demo_env demo_coinbase demo_client)) 7 = Ok (Some demo_coinbase)"
  using txn_pool_put_delete [OF env_ok_demo_env, of demo_coinbase demo_client 7]
  by (simp add: Txn_Hash_def PutTxnPool_def Let_def demo_env_def alist_db_def)

text \<open>
  Nothing stored in the sidechain and orphan databases can be read: those four reads decode into
  a nil pointer, so each of them ends in an error for every hash, also right after a successful put.
\<close>

lemma side_and_orphan_reads_fail:
  assumes "env_ok E"
  shows "GetSideHeader E c h \<in> {Err ErrNotFound, Err ErrUnmarshal} \<and> GetOrphanHeader E c h \<in> {Err ErrNotFound, Err ErrUnmarshal}
    \<and> GetSideBlock E c h \<in> {Err ErrNotFound, Err ErrUnmarshal} \<and> GetOrphanBlock E c h \<in> {Err ErrNotFound, Err ErrUnmarshal}
    \<and> (GetSideHeader E (snd (PutSideHeader E hdr c)) (header_hash E hdr) = Err ErrUnmarshal \<or> fst (PutSideHeader E hdr c) \<noteq> Ok ())"
proof -
  obtain view where view: "ldb_ok (eLdb E) view" using assms by (auto simp: env_ok_def)
  have "GetSideHeader E (snd (PutSideHeader E hdr c)) (header_hash E hdr) = Err ErrUnmarshal \<or> fst (PutSideHeader E hdr c) \<noteq> Ok ()"
    using ldb_get_put [OF view, of "sideHeaderDB (dbm c)"]
    by (auto simp: GetSideHeader_def PutSideHeader_def Let_def db_get_def unmarshal_nil_def split: option.splits)
  with side_reads [OF assms] show ?thesis by blast
qed

lemma side_and_orphan_reads_fail_witness:
  "GetSideHeader demo_env (snd (PutSideHeader demo_env demo_header demo_client)) (header_hash demo_env demo_header) = Err ErrUnmarshal"
  using side_and_orphan_reads_fail [OF env_ok_demo_env, of demo_client 7 demo_header]
  by (simp add: PutSideHeader_def Let_def demo_env_def alist_db_def)

end
