(* ===== verification/Peers.thy ===== *)
theory Peers
  imports Store
begin

text \<open>
  Loading blocks, outputs and transactions from storage, fetching them from peers, and serving
  them: the loading functions of \<^verbatim>\<open>block.go\<close>, \<^verbatim>\<open>output.go\<close> and
  \<^verbatim>\<open>txn.go\<close>, and \<^verbatim>\<open>gossip.go\<close>.  A pointer result is an option: \<open>Ok None\<close>
  is a nil pointer with a nil error.
\<close>

section \<open>Messages and broadcasts\<close>

definition NewHashMsg :: "'d Client \<Rightarrow> SHA256Sum \<Rightarrow> HashMsg" where
  "NewHashMsg c hash = \<lparr>hmAddress = cAddress c, hmHash = hash\<rparr>"

definition NewHash :: "HashMsg \<Rightarrow> SHA256Sum \<Rightarrow> HashMsg" where
  "NewHash hm hash = \<lparr>hmAddress = hmAddress hm, hmHash = hash\<rparr>"

definition peers :: "'d env \<Rightarrow> 'd Client \<Rightarrow> bytes list" where
  "peers E c = map fst (ldbIter (eLdb E) (peerDB (dbm c)))"

definition iter_result :: "gerr option \<Rightarrow> 'a \<Rightarrow> 'a res" where
  "iter_result e a = (case e of None \<Rightarrow> Ok a | Some err \<Rightarrow> Err err)"

definition bcast :: "'d env \<Rightarrow> bcast_method \<Rightarrow> SHA256Sum \<Rightarrow> ('d Client, unit) go" where
  "bcast E method hash = (\<lambda>c.
     (iter_result (ldbIterErr (eLdb E) (peerDB (dbm c))) (),
      c\<lparr>spawned := spawned c @ map (\<lambda>address. SendBcast method address hash) (peers E c)\<rparr>))"

definition BcastBlock :: "'d env \<Rightarrow> SHA256Sum \<Rightarrow> ('d Client, unit) go" where
  "BcastBlock E hash = bcast E BcastBlockRPC hash"

definition BcastTxn :: "'d env \<Rightarrow> SHA256Sum \<Rightarrow> ('d Client, unit) go" where
  "BcastTxn E hash = bcast E BcastTxnRPC hash"

text \<open>The goroutine of one broadcast: a peer that cannot be dialled is forgotten.\<close>

definition sendBcast :: "'d env \<Rightarrow> bytes \<Rightarrow> ('d Client, unit) go" where
  "sendBcast E address =
     (case eDial E address of
        None \<Rightarrow> go_ret ()
      | Some e \<Rightarrow> go_try (db_upd (\<lambda>d. ldbDelete (eLdb E) d address) peerDB peerDB_update)
                    (\<lambda>u. go_ret ()) (\<lambda>e. go_ret ()))"

section \<open>Fetching from a peer\<close>

definition call_peer :: "'d env \<Rightarrow> (bytes \<Rightarrow> HashMsg \<Rightarrow> gerr + 'a) \<Rightarrow> 'd Client \<Rightarrow> SHA256Sum \<Rightarrow> bytes \<Rightarrow> 'a res" where
  "call_peer E ask c hash address =
     (case eDial E address of Some e \<Rightarrow> Err e | None \<Rightarrow> of_sum (ask address (NewHashMsg c hash)))"

definition FetchHeader :: "'d env \<Rightarrow> 'd Client \<Rightarrow> SHA256Sum \<Rightarrow> bytes \<Rightarrow> BlockHeader option res" where
  "FetchHeader E c hash address =
     res_bind (call_peer E (askHeader E) c hash address) (\<lambda>header.
       if header_hash E header \<noteq> hash then Err (ErrMsg ''Wrong header'') else Ok (Some header))"

definition FetchBlock :: "'d env \<Rightarrow> 'd Client \<Rightarrow> SHA256Sum \<Rightarrow> bytes \<Rightarrow> Block option res" where
  "FetchBlock E c hash address =
     res_bind (call_peer E (askBlock E) c hash address) (\<lambda>block.
       if header_hash E (bkHeader block) \<noteq> hash then Err (ErrMsg ''Wrong block'')
       else if \<not> VerifyMerkleHash (eHash E) (encT E) block then Err (ErrMsg ''Wrong block'')
       else Ok (Some block))"

definition FetchTxn :: "'d env \<Rightarrow> 'd Client \<Rightarrow> SHA256Sum \<Rightarrow> bytes \<Rightarrow> Txn option res" where
  "FetchTxn E c hash address =
     res_bind (call_peer E (askTxn E) c hash address) (\<lambda>txn.
       if Txn_Hash E txn \<noteq> hash then Err (ErrMsg ''Wrong txn'') else Ok (Some txn))"

definition FetchOutput :: "'d env \<Rightarrow> 'd Client \<Rightarrow> SHA256Sum \<Rightarrow> bytes \<Rightarrow> Output option res" where
  "FetchOutput E c hash address =
     res_bind (call_peer E (askOutput E) c hash address) (\<lambda>output.
       if output_hash E output \<noteq> hash then Err (ErrMsg ''Wrong output'') else Ok (Some output))"

section \<open>Loading\<close>

definition LoadBlock :: "'d env \<Rightarrow> 'd Client \<Rightarrow> SHA256Sum \<Rightarrow> Block option res" where
  "LoadBlock E c hash =
     (if cType c \<noteq> BLOCKCHAIN_CLIENT then Err (ErrMsg ''Not BLOCKCHAIN_CLIENT'')
      else res_try (GetBlock E c hash) Ok (\<lambda>e.
             res_try (GetSideBlock E c hash) Ok (\<lambda>e. GetOrphanBlock E c hash)))"

text \<open>The first peer that answers; \<open>None\<close> when the loop runs out of peers.\<close>

fun first_ok :: "('a \<Rightarrow> 'b res) \<Rightarrow> 'a list \<Rightarrow> 'b res option" where
  "first_ok f [] = None"
| "first_ok f (a # as) = (case f a of Ok b \<Rightarrow> Some (Ok b) | Err e \<Rightarrow> first_ok f as | Panic \<Rightarrow> Some Panic)"

definition from_peers :: "'d env \<Rightarrow> 'd Client \<Rightarrow> (bytes \<Rightarrow> 'a option res) \<Rightarrow> 'a option res" where
  "from_peers E c f =
     (case first_ok f (peers E c) of
        Some r \<Rightarrow> r
      | None \<Rightarrow> iter_result (ldbIterErr (eLdb E) (peerDB (dbm c))) None)"

definition FindBlock :: "'d env \<Rightarrow> 'd Client \<Rightarrow> SHA256Sum \<Rightarrow> Block option res" where
  "FindBlock E c hash =
     res_try (LoadBlock E c hash) Ok (\<lambda>e. from_peers E c (FetchBlock E c hash))"

definition LoadOrFetchBlock :: "'d env \<Rightarrow> 'd Client \<Rightarrow> HashMsg \<Rightarrow> Block res" where
  "LoadOrFetchBlock E c req =
     res_bind (res_try (LoadBlock E c (hmHash req)) Ok (\<lambda>e. FetchBlock E c (hmHash req) (hmAddress req)))
       (\<lambda>block. case block of None \<Rightarrow> Err (ErrMsg ''Unable to load block'') | Some b \<Rightarrow> Ok b)"

definition LoadOutput :: "'d env \<Rightarrow> 'd Client \<Rightarrow> SHA256Sum \<Rightarrow> Output option res" where
  "LoadOutput E c hash =
     (if cType c \<noteq> BLOCKCHAIN_CLIENT then Err (ErrMsg ''Not BLOCKCHAIN_CLIENT'')
      else res_bind (MapToBlock E c hash) (\<lambda>blockHash. res_bind (LoadBlock E c blockHash) (\<lambda>block.
             res_bind (deref block) (\<lambda>b.
               case List.find (\<lambda>o1. output_hash E o1 = hash) (concat (map (\<lambda>txn. tbOutputs (txBody txn)) (bkTxns b))) of
                 Some o1 \<Rightarrow> Ok (Some o1)
               | None \<Rightarrow> Err (ErrMsg ''Could not load output'')))))"

definition FindOutput :: "'d env \<Rightarrow> 'd Client \<Rightarrow> SHA256Sum \<Rightarrow> Output option res" where
  "FindOutput E c hash =
     res_try (LoadOutput E c hash) Ok (\<lambda>e. from_peers E c (FetchOutput E c hash))"

text \<open>
  \<^verbatim>\<open>LoadTxn\<close>: when the pool does not have the transaction, the pointer \<open>txn\<close> the pool read
  returned is nil, and a match in the block is stored through that pointer.
\<close>

fun load_txn_loop :: "'d env \<Rightarrow> SHA256Sum \<Rightarrow> Txn option \<Rightarrow> Txn list \<Rightarrow> Txn option res" where
  "load_txn_loop E hash txn [] = Err (ErrMsg ''Could not load txn'')"
| "load_txn_loop E hash txn (t # ts) =
     res_bind (pimg_hash E t) (\<lambda>pimgHash.
       if hash = pimgHash then res_bind (deref txn) (\<lambda>old. Ok (Some t)) else load_txn_loop E hash txn ts)"

definition LoadTxn :: "'d env \<Rightarrow> 'd Client \<Rightarrow> SHA256Sum \<Rightarrow> Txn option res" where
  "LoadTxn E c hash =
     res_try (GetTxnPool E c hash) Ok (\<lambda>e.
       if cType c \<noteq> BLOCKCHAIN_CLIENT then Err (ErrMsg ''Not BLOCKCHAIN_CLIENT'')
       else res_bind (MapToBlock E c hash) (\<lambda>blockHash. res_bind (GetBlock E c blockHash) (\<lambda>block.
              res_bind (deref block) (\<lambda>b. load_txn_loop E hash None (bkTxns b)))))"

definition LoadOrFetchTxn :: "'d env \<Rightarrow> 'd Client \<Rightarrow> HashMsg \<Rightarrow> Txn res" where
  "LoadOrFetchTxn E c req =
     res_bind (res_try (LoadTxn E c (hmHash req)) Ok (\<lambda>e. FetchTxn E c (hmHash req) (hmAddress req)))
       (\<lambda>txn. case txn of None \<Rightarrow> Err (ErrMsg ''Unable to load txn'') | Some t \<Rightarrow> Ok t)"

section \<open>Serving peers\<close>

definition HandleRPC :: "'d env \<Rightarrow> bytes \<Rightarrow> ('d Client, bytes) go" where
  "HandleRPC E request = go_bind (PutPeer E request) (\<lambda>u c. (Ok (cAddress c), c))"

text \<open>The broadcast handlers: the address they answer with, and the message they hand to the client's loop.\<close>

definition announce :: "'d env \<Rightarrow> HashMsg \<Rightarrow> ('d Client, bytes \<times> HashMsg option) go" where
  "announce E req = go_bind (HandleRPC E (hmAddress req)) (\<lambda>address.
     go_ret (address, if hmHash req \<noteq> 0 then Some req else None))"

definition BcastBlockRPC_handler :: "'d env \<Rightarrow> HashMsg \<Rightarrow> ('d Client, bytes \<times> HashMsg option) go" where
  "BcastBlockRPC_handler E req = announce E req"

definition BcastTxnRPC_handler :: "'d env \<Rightarrow> HashMsg \<Rightarrow> ('d Client, bytes \<times> HashMsg option) go" where
  "BcastTxnRPC_handler E req = announce E req"

definition FetchHeaderRPC :: "'d env \<Rightarrow> HashMsg \<Rightarrow> ('d Client, bytes \<times> BlockHeader) go" where
  "FetchHeaderRPC E req = go_bind (HandleRPC E (hmAddress req)) (\<lambda>address.
     go_read (\<lambda>c. res_bind (db_get E (headerDB (dbm c)) (sum_bytes (hmHash req))) (\<lambda>headerBytes.
       res_bind (of_sum (decH E (slice headerBytes))) (\<lambda>header. Ok (address, header)))))"

definition FetchBlockRPC :: "'d env \<Rightarrow> HashMsg \<Rightarrow> ('d Client, bytes \<times> Block) go" where
  "FetchBlockRPC E req = go_bind (HandleRPC E (hmAddress req)) (\<lambda>address.
     go_read (\<lambda>c. res_bind (LoadBlock E c (hmHash req)) (\<lambda>block.
       res_bind (deref block) (\<lambda>b. Ok (address, b)))))"

definition FetchTxnRPC :: "'d env \<Rightarrow> HashMsg \<Rightarrow> ('d Client, bytes \<times> Txn) go" where
  "FetchTxnRPC E req = go_bind (HandleRPC E (hmAddress req)) (\<lambda>address.
     go_read (\<lambda>c. res_bind (LoadTxn E c (hmHash req)) (\<lambda>txn.
       res_bind (deref txn) (\<lambda>t. Ok (address, t)))))"

definition FetchOutputRPC :: "'d env \<Rightarrow> HashMsg \<Rightarrow> ('d Client, bytes \<times> Output) go" where
  "FetchOutputRPC E req = go_bind (HandleRPC E (hmAddress req)) (\<lambda>address.
     go_read (\<lambda>c. res_bind (LoadOutput E c (hmHash req)) (\<lambda>output.
       res_bind (deref output) (\<lambda>o1. Ok (address, o1)))))"

section \<open>What a fetch guarantees\<close>

text \<open>A fetched object has the hash it was asked for, whatever the peer sent.\<close>

locale checked_fetch =
  fixes fetch :: "'e \<Rightarrow> 'c \<Rightarrow> SHA256Sum \<Rightarrow> bytes \<Rightarrow> 'v option res"
    and key :: "'e \<Rightarrow> 'v \<Rightarrow> SHA256Sum"
  assumes fetch_cases: "(\<exists>v. fetch E c h a = Ok (Some v) \<and> key E v = h) \<or> (\<exists>e. fetch E c h a = Err e)"
begin

lemma fetch_key: "fetch E c h a = Ok v \<Longrightarrow> \<exists>u. v = Some u \<and> key E u = h"
  using fetch_cases [of E c h a] by auto

lemma first_fetch: "first_ok (fetch E c h) as = Some r \<Longrightarrow> \<exists>v. r = Ok (Some v) \<and> key E v = h"
proof (induction "as")
  case (Cons a "as")
  then show ?case using fetch_cases [of E c h a] by auto
qed simp

lemma fetches_agree:
  "fetch E c h a = Ok (Some u) \<Longrightarrow> fetch E c' h a' = Ok (Some v) \<Longrightarrow> key E u = key E v"
  using fetch_key [of E c h a] fetch_key [of E c' h a'] by auto

end

lemma call_peer_cases:
  obtains e where "call_peer E ask c h a = Err e" | v where "call_peer E ask c h a = Ok v"
  by (cases "eDial E a"; cases "ask a (NewHashMsg c h)") (auto simp: call_peer_def of_sum_def)

interpretation header_fetch: checked_fetch FetchHeader "\<lambda>E. header_hash E"
proof unfold_locales
  fix E :: "'a env" and c :: "'a Client" and h a
  show "(\<exists>v. FetchHeader E c h a = Ok (Some v) \<and> header_hash E v = h) \<or> (\<exists>e. FetchHeader E c h a = Err e)"
    by (cases rule: call_peer_cases [of E "askHeader E" c h a]) (auto simp: FetchHeader_def)
qed

interpretation block_fetch: checked_fetch FetchBlock "\<lambda>E b. header_hash E (bkHeader b)"
proof unfold_locales
  fix E :: "'a env" and c :: "'a Client" and h a
  show "(\<exists>v. FetchBlock E c h a = Ok (Some v) \<and> header_hash E (bkHeader v) = h) \<or> (\<exists>e. FetchBlock E c h a = Err e)"
    by (cases rule: call_peer_cases [of E "askBlock E" c h a]) (auto simp: FetchBlock_def)
qed

interpretation txn_fetch: checked_fetch FetchTxn Txn_Hash
proof unfold_locales
  fix E :: "'a env" and c :: "'a Client" and h a
  show "(\<exists>v. FetchTxn E c h a = Ok (Some v) \<and> Txn_Hash E v = h) \<or> (\<exists>e. FetchTxn E c h a = Err e)"
    by (cases rule: call_peer_cases [of E "askTxn E" c h a]) (auto simp: FetchTxn_def)
qed

interpretation output_fetch: checked_fetch FetchOutput "\<lambda>E. output_hash E"
proof unfold_locales
  fix E :: "'a env" and c :: "'a Client" and h a
  show "(\<exists>v. FetchOutput E c h a = Ok (Some v) \<and> output_hash E v = h) \<or> (\<exists>e. FetchOutput E c h a = Err e)"
    by (cases rule: call_peer_cases [of E "askOutput E" c h a]) (auto simp: FetchOutput_def)
qed

lemma LoadOutput_hash: "LoadOutput E c h = Ok v \<Longrightarrow> \<exists>o1. v = Some o1 \<and> output_hash E o1 = h"
  by (auto simp: LoadOutput_def res_bind_eq_Ok find_Some_iff split: if_splits option.splits)

lemma from_peers_Some:
  assumes "from_peers E c f = Ok (Some v)"
  shows "first_ok f (peers E c) = Some (Ok (Some v))"
  using assms by (auto simp: from_peers_def iter_result_def split: option.splits)

lemma FindOutput_hash: "FindOutput E c h = Ok (Some o1) \<Longrightarrow> output_hash E o1 = h"
  using LoadOutput_hash [of E c h] output_fetch.first_fetch [of E c h] from_peers_Some [of E c "FetchOutput E c h" o1]
  by (cases "LoadOutput E c h") (fastforce simp: FindOutput_def)+

lemma load_txn_loop_not_Ok: "load_txn_loop E h None ts \<noteq> Ok r"
  by (induction ts) (auto simp: res_bind_eq_Ok)

section \<open>Properties\<close>

text \<open>
  \<^verbatim>\<open>LoadTxn\<close> finds exactly the transactions of the pool.  For a transaction that is in a
  block it never returns: every path after a failed pool read ends in an error or a nil dereference.
\<close>

lemma load_txn_only_pool:
  "LoadTxn E c h = Ok r \<longleftrightarrow> GetTxnPool E c h = Ok r"
  using load_txn_loop_not_Ok
  by (cases "GetTxnPool E c h") (auto simp: LoadTxn_def res_bind_eq_Ok)

text \<open>
  C39: A peer can stop a full node with one \<^verbatim>\<open>FetchTxnRPC\<close>: a request for the hash of any output
  of a stored block whose coinbase has no preimage (as \<^verbatim>\<open>NewCoinbaseTxn\<close> makes it) panics.
\<close>

theorem fetch_txn_rpc_panics:
  assumes "cType c = BLOCKCHAIN_CLIENT" "fst (PutPeer E addr c) = Ok ()"
    and "\<And>r. GetTxnPool E c h \<noteq> Ok r" "GetTxnPool E c h \<noteq> Panic"
    and "MapToBlock E c h = Ok bh" "GetBlock E c bh = Ok (Some b)" "bkTxns b = t # ts"
    and "zPreimage (txSig t) = nil_pt"
  shows "fst (FetchTxnRPC E \<lparr>hmAddress = addr, hmHash = h\<rparr> c) = Panic"
proof -
  let ?c = "snd (PutPeer E addr c)"
  have "PutPeer E addr c = (Ok (), ?c)" using assms(2) by (simp add: prod_eq_iff)
  then obtain c' where c': "PutPeer E addr c = (Ok (), c')" by blast
  have "LoadTxn E ?c h = Panic"
  proof -
    have "GetTxnPool E ?c h = GetTxnPool E c h" "MapToBlock E ?c h = MapToBlock E c h"
      "GetBlock E ?c bh = GetBlock E c bh" "cType ?c = cType c"
      by (simp_all add: GetTxnPool_def MapToBlock_def GetBlock_def PutPeer_def)
    then show ?thesis
      using assms by (cases "GetTxnPool E c h") (auto simp: LoadTxn_def pimg_hash_def ECCPoint_Bytes_def coords_def nil_pt_def)
  qed
  with c' show ?thesis
    by (simp add: FetchTxnRPC_def HandleRPC_def go_bind_apply)
qed

definition demo_stored :: "(bytes \<times> bytes) list Client" where
  "demo_stored = demo_client\<lparr>dbm := (dbm demo_client)\<lparr>headerDB := [(sum_bytes 7, codec_enc demo_header)],
     blockDB := [(sum_bytes 7, codec_enc demo_block)], mapDB := [(sum_bytes 7, sum_bytes 7)]\<rparr>\<rparr>"

lemma demo_stored_reads [simp]:
  "cType demo_stored = BLOCKCHAIN_CLIENT" "LastHeader demo_stored = demo_header"
  "GetHeader demo_env demo_stored 7 = Ok (Some demo_header)"
  "GetBlock demo_env demo_stored 7 = Ok (Some demo_block)" "MapToBlock demo_env demo_stored 7 = Ok 7"
  "GetTxnPool demo_env demo_stored h = Err ErrNotFound" "GetPreimage demo_env demo_stored h = False"
  "UpdateWallet demo_stored = False"
  by (simp_all add: demo_stored_def GetHeader_def GetBlock_def MapToBlock_def GetTxnPool_def GetPreimage_def db_get_def
      demo_env_def alist_db_def demo_client_def of_sum_def slice_def)

lemma demo_writes [simp]: "fst (PutPeer demo_env a c) = Ok ()"
  by (simp add: PutPeer_def demo_env_def alist_db_def)

lemma demo_LoadOutput [simp]: "LoadOutput demo_env demo_stored 7 = Ok (Some demo_output)"
proof -
  have "output_hash demo_env demo_output = 7" by (simp add: Output_Hash_def demo_env_def)
  then show ?thesis by (simp add: LoadOutput_def LoadBlock_def demo_block_def demo_coinbase_def)
qed

theorem fetch_txn_rpc_panics_witness:
  "fst (FetchTxnRPC demo_env \<lparr>hmAddress = [1], hmHash = 7\<rparr> demo_stored) = Panic"
  by (rule fetch_txn_rpc_panics [where bh = 7 and b = demo_block and t = demo_coinbase and ts = "[]"])
    (simp_all add: demo_block_def demo_coinbase_def zero_sig_def)

text \<open>
  C24: An output the client finds, in storage or at a peer, hashes to the reference that named it, so
  a peer cannot substitute another output for a ring member.  Independently of that, a fetched block has the requested hash and
  a matching Merkle root.
\<close>

theorem found_objects_match:
  "(FindOutput E c h = Ok (Some o1) \<longrightarrow> output_hash E o1 = h)
   \<and> (FetchBlock E c h' a = Ok (Some b) \<longrightarrow> header_hash E (bkHeader b) = h' \<and> VerifyMerkleHash (eHash E) (encT E) b)"
  using FindOutput_hash [of E c h o1] by (auto simp: FetchBlock_def res_bind_eq_Ok split: if_splits)

theorem found_objects_match_witness:
  "output_hash demo_env demo_output = 7 \<and> header_hash demo_env (bkHeader demo_block) = 7
   \<and> VerifyMerkleHash (eHash demo_env) (encT demo_env) demo_block"
proof -
  let ?E = "demo_env\<lparr>askBlock := \<lambda>a m. Inr demo_block\<rparr>"
  have v: "header_hash ?E (bkHeader demo_block) = 7" "VerifyMerkleHash (eHash ?E) (encT ?E) demo_block"
    by (simp_all add: demo_env_def BlockHeader_Hash_def VerifyMerkleHash_def MerkleHash_eq demo_block_def demo_header_def)
  have "FindOutput ?E demo_stored 7 = Ok (Some demo_output)"
  proof -
    have "GetBlock ?E = GetBlock demo_env" "MapToBlock ?E = MapToBlock demo_env"
      by (intro ext, simp add: GetBlock_def MapToBlock_def db_get_def)+
    then have "LoadOutput ?E demo_stored 7 = LoadOutput demo_env demo_stored 7"
      by (simp add: LoadOutput_def LoadBlock_def)
    then show ?thesis by (simp add: FindOutput_def)
  qed
  moreover have "FetchBlock ?E demo_stored 7 [1] = Ok (Some demo_block)"
    using v by (simp add: FetchBlock_def call_peer_def of_sum_def demo_env_def)
  ultimately have "output_hash ?E demo_output = 7 \<and> header_hash ?E (bkHeader demo_block) = 7
    \<and> VerifyMerkleHash (eHash ?E) (encT ?E) demo_block"
    using found_objects_match [of ?E demo_stored 7 demo_output 7 "[1]" demo_block] by simp
  then show ?thesis by simp
qed

end
