(* ===== verification/Verify.thy ===== *)
theory Verify
  imports Peers
begin

text \<open>
  \<^verbatim>\<open>chain.go\<close> and the validations that read the chain: difficulties, ancestors, the
  outputs and preimages of a fork, \<^verbatim>\<open>VerifyTxn\<close> and \<^verbatim>\<open>VerifyTxns\<close> of
  \<^verbatim>\<open>txn.go\<close>, \<^verbatim>\<open>PostValidBlock\<close> and \<^verbatim>\<open>NewBlock\<close> of
  \<^verbatim>\<open>block.go\<close>, \<^verbatim>\<open>TxnsFromPool\<close> of \<^verbatim>\<open>db.go\<close>.
\<close>

section \<open>Difficulty\<close>

definition DIFFICULTY_SPACING :: nat where
  "DIFFICULTY_SPACING = 2016"

text \<open>The two sums over a chain; a loop that does not end is \<open>None\<close>.\<close>

partial_function (option) main_diff :: "'d env \<Rightarrow> 'd Client \<Rightarrow> SHA256Sum \<Rightarrow> u64 \<Rightarrow> u64 res option" where
  "main_diff E c prevHash total1 =
     (case GetHeader E c prevHash of
        Err e \<Rightarrow> Some (Err e)
      | Panic \<Rightarrow> Some Panic
      | Ok header \<Rightarrow>
          (case header of None \<Rightarrow> Some (Ok total1)
           | Some h \<Rightarrow> main_diff E c (bhPrevHash h) (total1 + bhDifficulty h)))"

definition MainChainTotalDifficulty :: "'d env \<Rightarrow> 'd Client \<Rightarrow> u64 res option" where
  "MainChainTotalDifficulty E c = main_diff E c (header_hash E (LastHeader c)) 0"

partial_function (option) side_diff :: "'d env \<Rightarrow> 'd Client \<Rightarrow> SHA256Sum \<Rightarrow> u64 \<Rightarrow> u64 res option" where
  "side_diff E c prevHash total1 =
     (case GetHeader E c prevHash of
        Err e \<Rightarrow> Some (Err e)
      | Panic \<Rightarrow> Some Panic
      | Ok header \<Rightarrow>
          (case header of
             Some h \<Rightarrow> side_diff E c (bhPrevHash h) (total1 + bhDifficulty h)
           | None \<Rightarrow>
               (case GetSideHeader E c prevHash of
                  Err e \<Rightarrow> Some (Err e)
                | Panic \<Rightarrow> Some Panic
                | Ok side \<Rightarrow> Some (Ok (case side of None \<Rightarrow> total1 | Some h \<Rightarrow> total1 + bhDifficulty h)))))"

definition SideChainTotalDifficulty :: "'d env \<Rightarrow> 'd Client \<Rightarrow> SHA256Sum \<Rightarrow> u64 res option" where
  "SideChainTotalDifficulty E c hash = side_diff E c hash 0"

text \<open>The zero header, whose time is the zero time (year 1).\<close>

definition zero_header :: BlockHeader where
  "zero_header = \<lparr>bhSeqNum = 0, bhPrevHash = 0, bhMerkleRoot = 0,
     bhTime = \<lparr>tmNano = - 62135596800 * 1000000000, tmZone = 0\<rparr>, bhDifficulty = 0, bhNonce = 0\<rparr>"

fun nth_ancestor :: "'d env \<Rightarrow> 'd Client \<Rightarrow> nat \<Rightarrow> SHA256Sum \<Rightarrow> BlockHeader \<Rightarrow> BlockHeader res" where
  "nth_ancestor E c 0 prevHash prevHeader = Ok prevHeader"
| "nth_ancestor E c (Suc n) prevHash prevHeader =
     res_bind (res_try (GetHeader E c prevHash) Ok (\<lambda>e. GetSideHeader E c prevHash)) (\<lambda>header.
       res_bind (deref header) (\<lambda>h. nth_ancestor E c n (bhPrevHash h) h))"

definition NthAncestorHeader :: "'d env \<Rightarrow> 'd Client \<Rightarrow> SHA256Sum \<Rightarrow> nat \<Rightarrow> BlockHeader res" where
  "NthAncestorHeader E c hash n = nth_ancestor E c n hash zero_header"

definition clamp_target :: "u64 \<Rightarrow> u64 \<Rightarrow> u64" where
  "clamp_target oldTarget newTarget =
     (let lowerBound = (if oldTarget > 0 then oldTarget - 1 else 0);
          upperBound = oldTarget + 1;
          newTarget = (if newTarget < lowerBound then lowerBound else newTarget)
      in if newTarget > upperBound then upperBound else newTarget)"

text \<open>
  The times are \<^verbatim>\<open>int64\<close>, and so is their difference.  \<open>eRetarget E old t\<close> is \<^verbatim>\<open>uint64(float64(old) * (float64(TWO_WEEKS_SEC) / float64(t)))\<close>.\<close>

definition ComputeDifficulty :: "'d env \<Rightarrow> 'd Client \<Rightarrow> Block \<Rightarrow> u64 res" where
  "ComputeDifficulty E c b =
     (if bhSeqNum (bkHeader b) \<le> of_nat DIFFICULTY_SPACING then Ok INITIAL_DIFFICULTY
      else res_try (NthAncestorHeader E c (bhPrevHash (bkHeader b)) DIFFICULTY_SPACING)
        (\<lambda>last1.
           let actualTime = signed_take_bit 63 (Unix (bhTime (bkHeader b)) - Unix (bhTime last1));
               oldTarget = bhDifficulty last1
           in Ok (clamp_target oldTarget (eRetarget E oldTarget actualTime)))
        (\<lambda>e. Ok (push_bit 63 1)))"

definition ValidDifficulty :: "'d env \<Rightarrow> 'd Client \<Rightarrow> Block \<Rightarrow> bool res" where
  "ValidDifficulty E c b = res_bind (ComputeDifficulty E c b) (\<lambda>d. Ok (bhDifficulty (bkHeader b) = d))"

section \<open>Outputs and preimages of a fork\<close>

type_synonym fork_txns = "SHA256Sum \<Rightarrow> Output option"
type_synonym fork_pimgs = "SHA256Sum set"

fun fork_block :: "'d env \<Rightarrow> Txn list \<Rightarrow> fork_txns \<times> fork_pimgs \<Rightarrow> (fork_txns \<times> fork_pimgs) res" where
  "fork_block E [] (txns, pimgs) = Ok (txns, pimgs)"
| "fork_block E (txn # ts) (txns, pimgs) =
     res_bind (pimg_hash E txn) (\<lambda>pimgHash.
       fork_block E ts
         (foldl (\<lambda>m o1. m(output_hash E o1 \<mapsto> o1)) txns (tbOutputs (txBody txn)), insert pimgHash pimgs))"

fun fork_loop :: "'d env \<Rightarrow> 'd Client \<Rightarrow> SHA256Sum list \<Rightarrow> fork_txns \<times> fork_pimgs \<Rightarrow> (fork_txns \<times> fork_pimgs) res" where
  "fork_loop E c [] acc = Ok acc"
| "fork_loop E c (hash # path) acc =
     res_bind (GetBlock E c hash) (\<lambda>b.
       res_bind (case b of None \<Rightarrow> GetSideBlock E c hash | Some bk \<Rightarrow> Ok (Some bk)) (\<lambda>b.
         case b of
           None \<Rightarrow> Err (ErrMsg ''Path does not exist'')
         | Some bk \<Rightarrow> res_bind (fork_block E (bkTxns bk) acc) (\<lambda>acc. fork_loop E c path acc)))"

definition ForkTxnsAndPreimages :: "'d env \<Rightarrow> 'd Client \<Rightarrow> SHA256Sum list \<Rightarrow> (fork_txns \<times> fork_pimgs) res" where
  "ForkTxnsAndPreimages E c path = fork_loop E c path (\<lambda>h. None, {})"

section \<open>Verifying a transaction\<close>

text \<open>The input loop: \<open>Ok None\<close> is a rejection.  \<open>mainTxns\<close> is present when forking.\<close>

fun gather_inputs :: "'d env \<Rightarrow> 'd Client \<Rightarrow> fork_txns option \<Rightarrow> SHA256Sum list \<Rightarrow> Output list option res" where
  "gather_inputs E c mainTxns [] = Ok (Some [])"
| "gather_inputs E c mainTxns (inp # inps) =
     res_try (FindOutput E c inp)
       (\<lambda>output.
          let unmapped = (\<not> is_ok (MapToBlock E c inp));
              mainok = (case mainTxns of None \<Rightarrow> False | Some m \<Rightarrow> m inp \<noteq> None)
          in if unmapped \<or> mainok then Ok None
             else res_bind (deref output) (\<lambda>o1.
                    res_bind (gather_inputs E c mainTxns inps) (\<lambda>rest.
                      Ok (map_option (\<lambda>os. o1 # os) rest))))
       (\<lambda>e. Ok None)"

fun verify_outputs :: "'d env \<Rightarrow> Output list \<Rightarrow> bool res" where
  "verify_outputs E [] = Ok True"
| "verify_outputs E (o1 # os) =
     res_bind (RangeProof_Verify (eHash E) (eCurve E) (cmProof (oCommit o1))) (\<lambda>ok.
       if \<not> ok then Ok False else verify_outputs E os)"

text \<open>The ring signature over the destination keys and commitments of the inputs.\<close>

definition verify_ring :: "'d env \<Rightarrow> Txn \<Rightarrow> Output list \<Rightarrow> bool res" where
  "verify_ring E txn inputs =
     (case (all_some (map (\<lambda>inp. coords (oDestKey inp)) (take TXN_NUM_INPUTS inputs)),
            all_some (map (\<lambda>inp. coords (cmPt (oCommit inp))) inputs)) of
        (Some pks, Some ics) \<Rightarrow> VerifyOZRS (eHash E) (eCurve E) (encB E) txn pks ics
      | _ \<Rightarrow> Panic)"

definition verify_rest :: "'d env \<Rightarrow> 'd Client \<Rightarrow> Txn \<Rightarrow> fork_txns option \<Rightarrow> bool res" where
  "verify_rest E c txn mainTxns =
     res_bind (gather_inputs E c mainTxns (tbInputs (txBody txn))) (\<lambda>inputs.
       case inputs of
         None \<Rightarrow> Ok False
       | Some ins \<Rightarrow> res_bind (verify_ring E txn ins) (\<lambda>ok.
           if \<not> ok then Ok False else verify_outputs E (tbOutputs (txBody txn))))"

definition VerifyTxn :: "'d env \<Rightarrow> 'd Client \<Rightarrow> Txn \<Rightarrow> fork_txns option \<Rightarrow> fork_txns option
    \<Rightarrow> fork_pimgs option \<Rightarrow> fork_pimgs option \<Rightarrow> bool res" where
  "VerifyTxn E c txn mainTxns sideTxns mainPimgs sidePimgs =
     (let forking = (mainTxns \<noteq> None \<and> mainPimgs \<noteq> None \<and> sideTxns \<noteq> None \<and> sidePimgs \<noteq> None)
      in if \<not> forking \<and> \<not> (mainTxns = None \<and> mainPimgs = None \<and> sideTxns = None \<and> sidePimgs = None) then Panic
         else res_bind (pimg_hash E txn) (\<lambda>pimg.
           let found = GetPreimage E c pimg
           in if forking
              then (if found \<or> pimg \<in> the mainPimgs then Ok False else verify_rest E c txn mainTxns)
              else (if found then Ok False else verify_rest E c txn mainTxns)))"

text \<open>The loop of \<^verbatim>\<open>VerifyTxns\<close>, which adds up the fees; \<open>Ok None\<close> is a rejection.\<close>

fun verify_loop :: "'d env \<Rightarrow> 'd Client \<Rightarrow> fork_txns \<times> fork_pimgs \<Rightarrow> fork_txns \<times> fork_pimgs \<Rightarrow> nat
    \<Rightarrow> Txn list \<Rightarrow> u64 \<Rightarrow> u64 option res" where
  "verify_loop E c m s i [] coinbase = Ok (Some coinbase)"
| "verify_loop E c m s i (txn # txns) coinbase =
     (if i \<noteq> 0
      then res_bind (VerifyTxn E c txn (Some (fst m)) (Some (fst s)) (Some (snd m)) (Some (snd s))) (\<lambda>ok.
             if \<not> ok then Ok None else verify_loop E c m s (Suc i) txns (coinbase + tbFee (txBody txn)))
      else verify_loop E c m s (Suc i) txns coinbase)"

definition path_list :: "SHA256Sum list option \<Rightarrow> SHA256Sum list" where
  "path_list p = (case p of None \<Rightarrow> [] | Some hs \<Rightarrow> hs)"

definition VerifyTxns :: "'d env \<Rightarrow> 'd Client \<Rightarrow> Block \<Rightarrow> SHA256Sum list option \<Rightarrow> SHA256Sum list option \<Rightarrow> bool res" where
  "VerifyTxns E c b mainPath sidePath =
     (if (mainPath = None \<and> sidePath \<noteq> None) \<or> (mainPath \<noteq> None \<and> sidePath = None) then Panic
      else res_try (ForkTxnsAndPreimages E c (path_list mainPath)) (\<lambda>m.
           res_try (ForkTxnsAndPreimages E c (path_list sidePath)) (\<lambda>s.
             res_bind (verify_loop E c m s 0 (bkTxns b) (CoinbaseValue (bhSeqNum (bkHeader b)))) (\<lambda>r.
               case r of
                 None \<Rightarrow> Ok False
               | Some coinbase \<Rightarrow>
                   res_bind (at (bkTxns b) 0) (\<lambda>cb. VerifyCoinbaseTxn (eCurve E) cb coinbase)))
             (\<lambda>e. Ok False)) (\<lambda>e. Ok False))"

definition PostValidBlock :: "'d env \<Rightarrow> 'd Client \<Rightarrow> Block \<Rightarrow> SHA256Sum list option \<Rightarrow> SHA256Sum list option \<Rightarrow> bool res" where
  "PostValidBlock E c b mainPath sidePath =
     res_bind (ValidDifficulty E c b) (\<lambda>ok. if \<not> ok then Ok False else VerifyTxns E c b mainPath sidePath)"

section \<open>Building a block\<close>

fun pool_loop :: "'d env \<Rightarrow> 'd Client \<Rightarrow> bytes list \<Rightarrow> Txn list res" where
  "pool_loop E c [] = Ok []"
| "pool_loop E c (txnBytes # rest) =
     res_try (of_sum (decT E txnBytes))
       (\<lambda>txn. if \<not> ValidTxn (encT E) txn then pool_loop E c rest
              else res_bind (VerifyTxn E c txn None None None None) (\<lambda>ok.
                if \<not> ok then pool_loop E c rest
                else res_bind (pool_loop E c rest) (\<lambda>txns. Ok (txn # txns))))
       (\<lambda>e. pool_loop E c rest)"

definition TxnsFromPool :: "'d env \<Rightarrow> 'd Client \<Rightarrow> Txn list res" where
  "TxnsFromPool E c = pool_loop E c (map snd (ldbIter (eLdb E) (txnPoolDB (dbm c))))"

definition NewBlock :: "'d env \<Rightarrow> 'd Client \<Rightarrow> BlockHeader \<Rightarrow> WalletPublicKey \<Rightarrow> go_time \<Rightarrow> SHA256Sum \<Rightarrow> Block res" where
  "NewBlock E c prev address now r =
     (let seqNum = bhSeqNum prev + 1
      in res_bind (TxnsFromPool E c) (\<lambda>txns.
           let fees = foldl (\<lambda>fees t. fees + tbFee (txBody t)) 0 txns
           in res_bind (NewCoinbaseTxn (eHash E) (eCurve E) address seqNum fees r) (\<lambda>coinbaseTxn.
             let block = \<lparr>bkHeader = \<lparr>bhSeqNum = seqNum, bhPrevHash = header_hash E prev, bhMerkleRoot = 0, bhTime = now,
                            bhDifficulty = INITIAL_DIFFICULTY, bhNonce = 0\<rparr>,
                          bkTxns = coinbaseTxn # txns\<rparr>;
                 block = block\<lparr>bkHeader := (bkHeader block)\<lparr>bhMerkleRoot := MerkleHash (eHash E) (encT E) block\<rparr>\<rparr>
             in res_bind (ComputeDifficulty E c block) (\<lambda>d.
                  Ok (block\<lparr>bkHeader := (bkHeader block)\<lparr>bhDifficulty := d\<rparr>\<rparr>)))))"

section \<open>What verification checks\<close>

lemma gather_inputs_iff:
  "gather_inputs E c mainTxns inps = Ok (Some ins) \<longleftrightarrow>
     list_all2 (\<lambda>inp o1. FindOutput E c inp = Ok (Some o1) \<and> is_ok (MapToBlock E c inp)
       \<and> (case mainTxns of None \<Rightarrow> True | Some m \<Rightarrow> m inp = None)) inps ins"
proof (induction inps arbitrary: ins)
  case (Cons inp inps)
  show ?case
  proof (cases "FindOutput E c inp")
    case (Ok found)
    show ?thesis
    proof (cases found)
      case None
      with Ok show ?thesis by (auto simp: list_all2_Cons1)
    next
      case (Some o1)
      with Ok Cons.IH show ?thesis
        by (cases ins) (auto simp: res_bind_eq_Ok Let_def split: option.splits)
    qed
  qed (auto simp: list_all2_Cons1)
qed auto

lemma verify_outputs_iff:
  "verify_outputs E os = Ok True \<longleftrightarrow> (\<forall>o1 \<in> set os. RangeProof_Verify (eHash E) (eCurve E) (cmProof (oCommit o1)) = Ok True)"
proof (induction os)
  case (Cons o1 os)
  then show ?case by (cases "RangeProof_Verify (eHash E) (eCurve E) (cmProof (oCommit o1))") auto
qed simp

lemma verify_rest_iff:
  "verify_rest E c txn mainTxns = Ok True \<longleftrightarrow>
     (\<exists>ins. gather_inputs E c mainTxns (tbInputs (txBody txn)) = Ok (Some ins) \<and> verify_ring E txn ins = Ok True
        \<and> (\<forall>o1 \<in> set (tbOutputs (txBody txn)). RangeProof_Verify (eHash E) (eCurve E) (cmProof (oCommit o1)) = Ok True))"
proof -
  have "verify_rest E c txn mainTxns = Ok True \<longleftrightarrow>
     (\<exists>ins. gather_inputs E c mainTxns (tbInputs (txBody txn)) = Ok (Some ins) \<and> verify_ring E txn ins = Ok True
        \<and> verify_outputs E (tbOutputs (txBody txn)) = Ok True)"
    by (auto simp: verify_rest_def res_bind_eq_Ok split: option.splits if_splits)
  then show ?thesis by (simp add: verify_outputs_iff)
qed

lemma gather_inputs_empty: "gather_inputs E c (Some (\<lambda>h. None)) inps = gather_inputs E c None inps"
  by (induction inps) (simp_all add: Let_def res_try_def split: res.splits)

lemma VerifyTxn_no_fork:
  "VerifyTxn E c txn (Some (\<lambda>h. None)) (Some s) (Some {}) (Some sp) = VerifyTxn E c txn None None None None"
  by (simp add: VerifyTxn_def verify_rest_def gather_inputs_empty cong: if_cong)

lemma VerifyTxn_iff:
  "VerifyTxn E c txn None None None None = Ok True \<longleftrightarrow>
     (\<exists>pimg ins. pimg_hash E txn = Ok pimg \<and> \<not> GetPreimage E c pimg
        \<and> list_all2 (\<lambda>inp o1. FindOutput E c inp = Ok (Some o1) \<and> is_ok (MapToBlock E c inp)) (tbInputs (txBody txn)) ins
        \<and> verify_ring E txn ins = Ok True
        \<and> (\<forall>o1 \<in> set (tbOutputs (txBody txn)). RangeProof_Verify (eHash E) (eCurve E) (cmProof (oCommit o1)) = Ok True))"
  by (cases "pimg_hash E txn") (auto simp: VerifyTxn_def Let_def verify_rest_iff gather_inputs_iff)

lemma ForkTxnsAndPreimages_Nil [simp]: "ForkTxnsAndPreimages E c [] = Ok (\<lambda>h. None, {})"
  by (simp add: ForkTxnsAndPreimages_def)

lemma verify_loop_Suc:
  assumes "\<forall>t \<in> set txns. VerifyTxn E c t None None None None = Ok True"
  shows "verify_loop E c (\<lambda>h. None, {}) (\<lambda>h. None, {}) (Suc i) txns coinbase =
    Ok (Some (coinbase + sum_list (map (\<lambda>t. tbFee (txBody t)) txns)))"
  using assms by (induction txns arbitrary: i coinbase) (simp_all add: VerifyTxn_no_fork add.assoc)

lemma VerifyTxns_main:
  assumes "\<forall>t \<in> set txns. VerifyTxn E c t None None None None = Ok True"
  shows "VerifyTxns E c \<lparr>bkHeader = h, bkTxns = cb # txns\<rparr> None None =
    VerifyCoinbaseTxn (eCurve E) cb (CoinbaseValue (bhSeqNum h) + sum_list (map (\<lambda>t. tbFee (txBody t)) txns))"
  using verify_loop_Suc [OF assms] by (simp add: VerifyTxns_def path_list_def)

text \<open>Conversely, a block accepted on the main chain verifies every transaction after the first.\<close>

lemma verify_loop_verified:
  "verify_loop E c (\<lambda>h. None, {}) (\<lambda>h. None, {}) (Suc i) txns coinbase = Ok (Some r) \<Longrightarrow>
    (\<forall>t \<in> set txns. VerifyTxn E c t None None None None = Ok True)"
  by (induction txns arbitrary: i coinbase) (auto simp: VerifyTxn_no_fork res_bind_eq_Ok split: if_splits)

lemma PostValidBlock_verified:
  assumes "PostValidBlock E c b None None = Ok True" "t \<in> set (tl (bkTxns b))"
  shows "VerifyTxn E c t None None None None = Ok True"
  using assms
  by (cases "bkTxns b")
    (auto simp: PostValidBlock_def VerifyTxns_def path_list_def res_bind_eq_Ok split: if_splits option.splits
      dest!: verify_loop_verified)

section \<open>Difficulty bounds\<close>

lemma clamp_target_bounds:
  assumes "old \<noteq> - 1"
  shows "unat (clamp_target old new) \<le> unat old + 1" "unat old \<le> unat (clamp_target old new) + 1"
proof -
  have up: "unat (old + 1) = unat old + 1"
    using assms by (metis Suc_eq_plus1 add_eq_0_iff add.commute unatSuc)
  have "0 < old \<Longrightarrow> unat (old - 1) = unat old - 1"
    by (simp add: unat_minus_one)
  with up show "unat (clamp_target old new) \<le> unat old + 1" "unat old \<le> unat (clamp_target old new) + 1"
    by (auto simp: clamp_target_def Let_def word_less_nat_alt not_less)
qed

section \<open>The difficulty sums\<close>

lemma main_diff_err:
  assumes "env_ok E" "main_diff E c prevHash total1 = Some r"
  shows "\<exists>e. r = Err e"
proof -
  have "env_ok E \<longrightarrow> (\<exists>e. r = Err e)"
  proof (rule main_diff.raw_induct [where P = "\<lambda>E c prevHash total1 r. env_ok E \<longrightarrow> (\<exists>e. r = Err e)", OF _ assms(2)])
    fix loop :: "'a env \<Rightarrow> 'a Client \<Rightarrow> SHA256Sum \<Rightarrow> u64 \<Rightarrow> u64 res option" and E c prevHash total1 r
    assume ih: "\<And>E c prevHash total1 r. loop E c prevHash total1 = Some r \<Longrightarrow> env_ok E \<longrightarrow> (\<exists>e. r = Err e)"
      and step: "(case GetHeader E c prevHash of
        Ok header \<Rightarrow> (case header of None \<Rightarrow> Some (Ok total1)
          | Some h \<Rightarrow> loop E c (bhPrevHash h) (total1 + bhDifficulty h))
      | Err e \<Rightarrow> Some (Err e) | Panic \<Rightarrow> Some Panic) = Some r"
    show "env_ok E \<longrightarrow> (\<exists>e. r = Err e)"
    proof
      assume ok: "env_ok E"
      from ok show "\<exists>e. r = Err e"
        by (cases rule: GetHeader_cases [of E c prevHash]) (use step ih ok in auto)
    qed
  qed
  with assms(1) show ?thesis by blast
qed

lemma side_diff_err:
  assumes "env_ok E" "side_diff E c prevHash total1 = Some r"
  shows "\<exists>e. r = Err e"
proof -
  have "env_ok E \<longrightarrow> (\<exists>e. r = Err e)"
  proof (rule side_diff.raw_induct [where P = "\<lambda>E c prevHash total1 r. env_ok E \<longrightarrow> (\<exists>e. r = Err e)", OF _ assms(2)])
    fix loop :: "'a env \<Rightarrow> 'a Client \<Rightarrow> SHA256Sum \<Rightarrow> u64 \<Rightarrow> u64 res option" and E c prevHash total1 r
    assume ih: "\<And>E c prevHash total1 r. loop E c prevHash total1 = Some r \<Longrightarrow> env_ok E \<longrightarrow> (\<exists>e. r = Err e)"
      and step: "(case GetHeader E c prevHash of
        Ok header \<Rightarrow> (case header of
            None \<Rightarrow> (case GetSideHeader E c prevHash of
                  Ok side \<Rightarrow> Some (Ok (case side of None \<Rightarrow> total1 | Some h \<Rightarrow> total1 + bhDifficulty h))
                | Err e \<Rightarrow> Some (Err e) | Panic \<Rightarrow> Some Panic)
          | Some h \<Rightarrow> loop E c (bhPrevHash h) (total1 + bhDifficulty h))
      | Err e \<Rightarrow> Some (Err e) | Panic \<Rightarrow> Some Panic) = Some r"
    show "env_ok E \<longrightarrow> (\<exists>e. r = Err e)"
    proof
      assume ok: "env_ok E"
      from ok show "\<exists>e. r = Err e"
        by (cases rule: GetHeader_cases [of E c prevHash]) (use step ih ok in auto)
    qed
  qed
  with assms(1) show ?thesis by blast
qed

section \<open>Properties\<close>

text \<open>
  C10: \<^verbatim>\<open>VerifyTxn\<close> outside a fork accepts exactly the transactions whose preimage is fresh, whose
  inputs can all be found and are recorded in a block, whose ring signature verifies over the keys and
  commitments of the found outputs, and all of whose range proofs verify.
\<close>

theorem verify_txn_accepts_iff:
  "VerifyTxn E c txn None None None None = Ok True \<longleftrightarrow>
     (\<exists>pimg ins. pimg_hash E txn = Ok pimg \<and> \<not> GetPreimage E c pimg
        \<and> list_all2 (\<lambda>inp o1. FindOutput E c inp = Ok (Some o1) \<and> is_ok (MapToBlock E c inp)) (tbInputs (txBody txn)) ins
        \<and> verify_ring E txn ins = Ok True
        \<and> list_all (\<lambda>o1. RangeProof_Verify (eHash E) (eCurve E) (cmProof (oCommit o1)) = Ok True) (tbOutputs (txBody txn)))"
  unfolding VerifyTxn_iff by (simp add: list_all_iff)

lemma payment_accepted:
  assumes cv: "curve_ok (eCurve E)" and idx: "0 \<le> idx" "idx < 8"
    and ring: "length ins = 8"
      "all_some (map (\<lambda>inp. coords (oDestKey inp)) ins) = Some pks"
      "all_some (map (\<lambda>inp. coords (cmPt (oCommit inp))) ins) = Some ics"
    and own: "0 \<le> sk" "pks ! nat idx = cBase (eCurve E) (int_be sk)"
      "0 \<le> yi" "ics ! nat idx = PedersenSum (eCurve E) (int_be yi) (nat_be vin)"
    and rcpts: "length amts \<le> length rcpts" "\<And>rc. rc \<in> set rcpts \<Longrightarrow> good_rcpt (eCurve E) rc"
    and amts: "\<And>a. a \<in> set amts \<Longrightarrow> a < 2 ^ 34" "vin = sum_list (map unat amts) + unat fee"
    and stored: "\<And>inp. inp \<in> set ins \<Longrightarrow> FindOutput E c (output_hash E inp) = Ok (Some inp) \<and> is_ok (MapToBlock E c (output_hash E inp))"
    and fresh: "\<not> GetPreimage E c (eHash E (point_Bytes (Preimage (eHash E) (eCurve E) (pks ! nat idx) (Some sk))))"
  shows "\<exists>txn. NewTxn (eHash E) (eCurve E) (encO E) (encB E) (Some ins) sk yi idx (Some amts) (Some rcpts) fee dr k1 k2 rr sr = Some (Ok (Some txn))
    \<and> VerifyTxn E c txn None None None None = Ok True
    \<and> tbFee (txBody txn) = fee"
proof -
  obtain txn where txn: "NewTxn (eHash E) (eCurve E) (encO E) (encB E) (Some ins) sk yi idx (Some amts) (Some rcpts) fee dr k1 k2 rr sr = Some (Ok (Some txn))"
    "VerifyOZRS (eHash E) (eCurve E) (encB E) txn (take 8 pks) ics = Ok True"
    "tbInputs (txBody txn) = map (output_hash E) ins" "tbFee (txBody txn) = fee"
    "\<forall>o1 \<in> set (tbOutputs (txBody txn)). RangeProof_Verify (eHash E) (eCurve E) (cmProof (oCommit o1)) = Ok True"
    using NewTxn_good [OF cv idx _ ring(2,3) own rcpts amts, of "eHash E" "encO E" "encB E" dr k1 k2 rr sr] ring(1) by auto
  have "pimg_hash E txn = Ok (eHash E (point_Bytes (Preimage (eHash E) (eCurve E) (pks ! nat idx) (Some sk))))"
    using NewTxn_preimage [OF txn(1) ring(2)] ring(1) by (simp add: pimg_hash_def ECCPoint_Bytes_def)
  moreover have "verify_ring E txn ins = Ok True"
    using ring txn(2) all_some_length [OF ring(2)] by (simp add: verify_ring_def TXN_NUM_INPUTS_def)
  ultimately show ?thesis
    using txn fresh stored by (auto simp: VerifyTxn_iff list_all2_map1 list_all2_same intro!: exI [of _ ins])
qed

text \<open>
  C3: A payment made with \<^verbatim>\<open>NewTxn\<close> from eight stored outputs, by the owner of one of them and
  balancing it, is accepted by every client that stores those outputs and has not seen the key's preimage.
\<close>

theorem stored_payment_accepted:
  assumes "curve_ok (eCurve E)" and "0 \<le> idx" "idx < 8"
    and "length ins = 8"
      "all_some (map (\<lambda>inp. coords (oDestKey inp)) ins) = Some pks"
      "all_some (map (\<lambda>inp. coords (cmPt (oCommit inp))) ins) = Some ics"
    and "0 \<le> sk" "pks ! nat idx = cBase (eCurve E) (int_be sk)"
      "0 \<le> yi" "ics ! nat idx = PedersenSum (eCurve E) (int_be yi) (nat_be vin)"
    and "length amts \<le> length rcpts" "\<And>rc. rc \<in> set rcpts \<Longrightarrow> good_rcpt (eCurve E) rc"
    and "\<And>a. a \<in> set amts \<Longrightarrow> a < 2 ^ 34" "vin = sum_list (map unat amts) + unat fee"
    and "\<And>inp. inp \<in> set ins \<Longrightarrow> FindOutput E c (output_hash E inp) = Ok (Some inp) \<and> is_ok (MapToBlock E c (output_hash E inp))"
    and "\<not> GetPreimage E c (eHash E (point_Bytes (Preimage (eHash E) (eCurve E) (pks ! nat idx) (Some sk))))"
  shows "\<exists>txn. NewTxn (eHash E) (eCurve E) (encO E) (encB E) (Some ins) sk yi idx (Some amts) (Some rcpts) fee dr k1 k2 rr sr = Some (Ok (Some txn))
    \<and> VerifyTxn E c txn None None None None = Ok True
    \<and> tbFee (txBody txn) = fee"
  using assms by (rule payment_accepted)

lemma demo_reads [simp]:
  "eHash demo_env bs = 7" "eCurve demo_env = log_curve" "Output_Hash (eHash demo_env) (encO demo_env) o1 = 7"
  "FindOutput demo_env demo_stored 7 = Ok (Some demo_output)"
  by (simp_all add: demo_env_def Output_Hash_def) (simp add: FindOutput_def demo_env_def [symmetric])

lemma demo_accepted:
  assumes "\<And>a. a \<in> set amts \<Longrightarrow> a < 2 ^ 34" "10 = sum_list (map unat amts) + unat fee"
    and "length amts \<le> length rcpts" "set rcpts \<subseteq> {demo_rcpt}"
  shows "\<exists>txn. NewTxn (eHash demo_env) (eCurve demo_env) (encO demo_env) (encB demo_env) (Some (replicate 8 demo_output)) 5 3 6 (Some amts)
      (Some rcpts) fee (\<lambda>i. demo_draws) 21 22 of_nat of_nat = Some (Ok (Some txn))
    \<and> VerifyTxn demo_env demo_stored txn None None None None = Ok True \<and> tbFee (txBody txn) = fee"
proof -
  have rcpts: "rc \<in> set rcpts \<Longrightarrow> good_rcpt (eCurve demo_env) rc" for rc
    using assms(4) good_demo_rcpt by auto
  have cv: "curve_ok (eCurve demo_env)" by simp
  show ?thesis
    by (rule payment_accepted [OF cv _ _ _ all_some_demo _ _ _ _ assms(3) rcpts assms(1,2)]) auto
qed

lemma demo_amounts:
  "a \<in> set [4, 5] \<Longrightarrow> a < (2 ^ 34 :: u64)" "10 = sum_list (map unat [4 :: u64, 5]) + unat (1 :: u64)"
  by auto

theorem stored_payment_accepted_witness:
  "\<exists>txn. VerifyTxn demo_env demo_stored txn None None None None = Ok True \<and> tbFee (txBody txn) = 1"
proof -
  have cv: "curve_ok (eCurve demo_env)" by simp
  have "\<exists>txn. NewTxn (eHash demo_env) (eCurve demo_env) (encO demo_env) (encB demo_env) (Some (replicate 8 demo_output)) 5 3 6 (Some [4, 5])
      (Some [demo_rcpt, demo_rcpt]) 1 (\<lambda>i. demo_draws) 21 22 of_nat of_nat = Some (Ok (Some txn))
    \<and> VerifyTxn demo_env demo_stored txn None None None None = Ok True \<and> tbFee (txBody txn) = 1"
    by (rule stored_payment_accepted [OF cv _ _ _ all_some_demo]) (use good_demo_rcpt in auto)
  then show ?thesis by blast
qed

text \<open>
  C5: Commitments do not bind: the second generator is 11235 times the first, so the owner of any one
  of eight stored outputs can pay out any amounts below \<open>2^34\<close>, whatever the output is worth.  With the blinding factor
  shifted by 11235 times the excess, \<^verbatim>\<open>NewTxn\<close> itself makes a transaction that every client with a fresh preimage
  accepts, and its outputs are the genuine outputs of \<^verbatim>\<open>BuildOutputs\<close> for those amounts.
\<close>

theorem any_amounts_payable:
  assumes "curve_ok (eCurve E)" and "0 \<le> idx" "idx < 8"
    and "length ins = 8"
      "all_some (map (\<lambda>inp. coords (oDestKey inp)) ins) = Some pks"
      "all_some (map (\<lambda>inp. coords (cmPt (oCommit inp))) ins) = Some ics"
    and "0 \<le> sk" "pks ! nat idx = cBase (eCurve E) (int_be sk)"
      "0 \<le> yi" "ics ! nat idx = PedersenSum (eCurve E) (int_be yi) (nat_be vin)"
    and "length amts \<le> length rcpts" "\<And>rc. rc \<in> set rcpts \<Longrightarrow> good_rcpt (eCurve E) rc"
    and "\<And>a. a \<in> set amts \<Longrightarrow> a < 2 ^ 34"
    and "\<And>inp. inp \<in> set ins \<Longrightarrow> FindOutput E c (output_hash E inp) = Ok (Some inp) \<and> is_ok (MapToBlock E c (output_hash E inp))"
    and "\<not> GetPreimage E c (eHash E (point_Bytes (Preimage (eHash E) (eCurve E) (pks ! nat idx) (Some sk))))"
    and "yi' = (yi + 11235 * (int vin - int (sum_list (map unat amts) + unat fee))) mod P256_N"
  shows "\<exists>txn bs. NewTxn (eHash E) (eCurve E) (encO E) (encB E) (Some ins) sk yi' idx (Some amts) (Some rcpts) fee dr k1 k2 rr sr = Some (Ok (Some txn))
    \<and> VerifyTxn E c txn None None None None = Ok True
    \<and> BuildOutputs (eHash E) (eCurve E) amts rcpts dr = Ok (tbOutputs (txBody txn), bs)"
proof -
  let ?v = "sum_list (map unat amts) + unat fee"
  have "(yi + 11235 * int vin) mod P256_N = (yi' + 11235 * int ?v) mod P256_N"
    unfolding assms(16) mod_add_left_eq by (rule arg_cong [where f = "\<lambda>x. x mod P256_N"]) (simp add: algebra_simps)
  then have g: "gen (eCurve E) (yi + 11235 * int vin) = gen (eCurve E) (yi' + 11235 * int ?v)"
    by (intro gen_cong) (simp add: curve_N [OF assms(1)])
  have pos: "0 \<le> yi'" unfolding assms(16) by (rule pos_mod_sign) (simp add: P256_N_def)
  have ped: "ics ! nat idx = PedersenSum (eCurve E) (int_be yi') (nat_be ?v)"
    unfolding assms(10) PedersenSum_gen [OF assms(1)] be_nat_int_be [OF assms(9)] be_nat_int_be [OF pos] be_nat_nat_be by (rule g)
  from payment_accepted [OF assms(1-8) pos ped assms(11-13) refl assms(14,15), of dr k1 k2 rr sr]
  show ?thesis using NewTxn_outputs by metis
qed

theorem any_amounts_payable_witness:
  "\<exists>txn bs. VerifyTxn demo_env demo_stored txn None None None None = Ok True
    \<and> BuildOutputs (eHash demo_env) (eCurve demo_env) [2 ^ 33, 2 ^ 33] [demo_rcpt, demo_rcpt] (\<lambda>i. demo_draws) = Ok (tbOutputs (txBody txn), bs)"
proof -
  have cv: "curve_ok (eCurve demo_env)" by simp
  have "\<exists>txn bs. NewTxn (eHash demo_env) (eCurve demo_env) (encO demo_env) (encB demo_env) (Some (replicate 8 demo_output)) 5
      ((3 + 11235 * (int 10 - int (sum_list (map unat [2 ^ 33 :: u64, 2 ^ 33]) + unat (1 :: u64)))) mod P256_N) 6 (Some [2 ^ 33, 2 ^ 33])
      (Some [demo_rcpt, demo_rcpt]) 1 (\<lambda>i. demo_draws) 21 22 of_nat of_nat = Some (Ok (Some txn))
    \<and> VerifyTxn demo_env demo_stored txn None None None None = Ok True
    \<and> BuildOutputs (eHash demo_env) (eCurve demo_env) [2 ^ 33, 2 ^ 33] [demo_rcpt, demo_rcpt] (\<lambda>i. demo_draws) = Ok (tbOutputs (txBody txn), bs)"
    by (rule any_amounts_payable [OF cv _ _ _ all_some_demo]) (use good_demo_rcpt in auto)
  then show ?thesis by blast
qed

text \<open>
  C29: A transaction can be repeated inside one block: the preimage is only looked up in the database, so a block
  that contains an acceptable transaction \<open>n\<close> times passes \<^verbatim>\<open>VerifyTxns\<close> whenever its coinbase
  claims the reward and \<open>n\<close> times the fee.
\<close>

theorem repeated_spend_in_block:
  assumes "VerifyTxn E c t None None None None = Ok True"
  shows "VerifyTxns E c \<lparr>bkHeader = h, bkTxns = cb # replicate n t\<rparr> None None =
    VerifyCoinbaseTxn (eCurve E) cb (CoinbaseValue (bhSeqNum h) + of_nat n * tbFee (txBody t))"
proof -
  have "VerifyTxns E c \<lparr>bkHeader = h, bkTxns = cb # replicate n t\<rparr> None None =
    VerifyCoinbaseTxn (eCurve E) cb (CoinbaseValue (bhSeqNum h) + sum_list (map (\<lambda>t. tbFee (txBody t)) (replicate n t)))"
    using assms by (intro VerifyTxns_main) auto
  moreover have "sum_list (map (\<lambda>t. tbFee (txBody t)) (replicate n t)) = of_nat n * tbFee (txBody t)"
    by (induction n) (simp_all add: algebra_simps)
  ultimately show ?thesis by simp
qed

theorem repeated_spend_in_block_witness:
  "\<exists>t cb. VerifyTxns demo_env demo_stored \<lparr>bkHeader = demo_header, bkTxns = [cb, t, t]\<rparr> None None = Ok True"
proof -
  obtain t where t: "VerifyTxn demo_env demo_stored t None None None None = Ok True" "tbFee (txBody t) = 1"
    using demo_accepted [OF demo_amounts, of "[demo_rcpt, demo_rcpt]"] by auto
  obtain cb where cb: "VerifyCoinbaseTxn (eCurve demo_env) cb (CoinbaseValue 0 + 2) = Ok True"
    using NewCoinbaseTxn_exact [OF curve_ok_log_curve good_demo_rcpt, of "\<lambda>bs. 7" 0 2 3 "CoinbaseValue 0 + 2"] by auto
  show ?thesis
    using repeated_spend_in_block [OF t(1), of demo_header cb 2] t(2) cb
    by (intro exI [of _ t] exI [of _ cb]) (simp add: numeral_2_eq_2 demo_header_def)
qed

lemma pool_loop_verified:
  "pool_loop E c bss = Ok txns \<Longrightarrow> t \<in> set txns \<Longrightarrow>
    VerifyTxn E c t None None None None = Ok True \<and> ValidTxn (encT E) t"
proof (induction bss arbitrary: txns)
  case (Cons bs bss)
  show ?case
  proof (cases "of_sum (decT E bs)")
    case (Ok txn)
    with Cons show ?thesis by (auto simp: res_bind_eq_Ok split: if_splits)
  qed (use Cons in auto)
qed simp

lemma foldl_add_sum_list: "foldl (\<lambda>s t. s + f t) (a :: u64) xs = a + sum_list (map f xs)"
  by (induction xs arbitrary: a) (simp_all add: add.assoc)

lemma NewBlock_Ok:
  assumes "NewBlock E c prev address now r = Ok b"
  shows "\<exists>txns cb h d. TxnsFromPool E c = Ok txns
    \<and> NewCoinbaseTxn (eHash E) (eCurve E) address (bhSeqNum prev + 1) (sum_list (map (\<lambda>t. tbFee (txBody t)) txns)) r = Ok cb
    \<and> b = \<lparr>bkHeader = h\<lparr>bhDifficulty := d\<rparr>, bkTxns = cb # txns\<rparr> \<and> bhSeqNum h = bhSeqNum prev + 1
    \<and> bhMerkleRoot h = eHash E (encT E cb) \<and> ComputeDifficulty E c \<lparr>bkHeader = h, bkTxns = cb # txns\<rparr> = Ok d"
proof -
  from assms obtain txns cb d where "TxnsFromPool E c = Ok txns"
    "NewCoinbaseTxn (eHash E) (eCurve E) address (bhSeqNum prev + 1) (sum_list (map (\<lambda>t. tbFee (txBody t)) txns)) r = Ok cb"
    "ComputeDifficulty E c \<lparr>bkHeader = \<lparr>bhSeqNum = bhSeqNum prev + 1, bhPrevHash = header_hash E prev,
       bhMerkleRoot = eHash E (encT E cb), bhTime = now, bhDifficulty = INITIAL_DIFFICULTY, bhNonce = 0\<rparr>,
       bkTxns = cb # txns\<rparr> = Ok d"
    "b = \<lparr>bkHeader = \<lparr>bhSeqNum = bhSeqNum prev + 1, bhPrevHash = header_hash E prev,
       bhMerkleRoot = eHash E (encT E cb), bhTime = now, bhDifficulty = d, bhNonce = 0\<rparr>,
       bkTxns = cb # txns\<rparr>"
    by (auto simp: NewBlock_def Let_def res_bind_eq_Ok foldl_add_sum_list MerkleHash_eq)
  then show ?thesis
    by (intro exI [of _ txns] exI [of _ cb] exI [of _ "\<lparr>bhSeqNum = bhSeqNum prev + 1, bhPrevHash = header_hash E prev,
       bhMerkleRoot = eHash E (encT E cb), bhTime = now, bhDifficulty = INITIAL_DIFFICULTY, bhNonce = 0\<rparr>"] exI [of _ d]) simp
qed

lemma ComputeDifficulty_header:
  "ComputeDifficulty E c \<lparr>bkHeader = h\<lparr>bhDifficulty := d\<rparr>, bkTxns = ts\<rparr> = ComputeDifficulty E c \<lparr>bkHeader = h, bkTxns = ts\<rparr>"
  by (simp add: ComputeDifficulty_def)

lemma NewBlock_accepted:
  assumes "curve_ok (eCurve E)" "good_rcpt (eCurve E) address"
    and "NewBlock E c prev address now r = Ok b"
  shows "PostValidBlock E c b None None = Ok True
    \<and> PrevalidBlock (eHash E) (encT E) b = (length (encT E (hd (bkTxns b))) < MAX_BLOCK_SIZE)"
proof -
  obtain txns cb h d where b: "TxnsFromPool E c = Ok txns"
    "NewCoinbaseTxn (eHash E) (eCurve E) address (bhSeqNum prev + 1) (sum_list (map (\<lambda>t. tbFee (txBody t)) txns)) r = Ok cb"
    "b = \<lparr>bkHeader = h\<lparr>bhDifficulty := d\<rparr>, bkTxns = cb # txns\<rparr>" "bhSeqNum h = bhSeqNum prev + 1"
    "bhMerkleRoot h = eHash E (encT E cb)" "ComputeDifficulty E c \<lparr>bkHeader = h, bkTxns = cb # txns\<rparr> = Ok d"
    using NewBlock_Ok [OF assms(3)] by blast
  have txns: "\<forall>t \<in> set txns. VerifyTxn E c t None None None None = Ok True \<and> ValidTxn (encT E) t"
    using pool_loop_verified b(1) unfolding TxnsFromPool_def by blast
  have "VerifyCoinbaseTxn (eCurve E) cb (CoinbaseValue (bhSeqNum h) + sum_list (map (\<lambda>t. tbFee (txBody t)) txns)) = Ok True"
    and cb: "ValidCoinbaseTxn (encT E) cb = (length (encT E cb) < MAX_BLOCK_SIZE)"
    using NewCoinbaseTxn_exact [OF assms(1,2), of "eHash E" "bhSeqNum h" "sum_list (map (\<lambda>t. tbFee (txBody t)) txns)" r
        "CoinbaseValue (bhSeqNum h) + sum_list (map (\<lambda>t. tbFee (txBody t)) txns)" "encT E"] b(2,4) by auto
  then have "PostValidBlock E c b None None = Ok True"
    using VerifyTxns_main [of txns E c "h\<lparr>bhDifficulty := d\<rparr>" cb] txns b(6)
    by (simp add: PostValidBlock_def ValidDifficulty_def b(3) ComputeDifficulty_header)
  moreover have "PrevalidBlock (eHash E) (encT E) b = (length (encT E cb) < MAX_BLOCK_SIZE)"
    using txns cb b(5) by (auto simp: PrevalidBlock_def VerifyMerkleHash_def MerkleHash_eq b(3) ValidTxns_Cons list_all_iff)
  ultimately show ?thesis by (simp add: b(3))
qed

text \<open>
  C13: A block made by \<^verbatim>\<open>NewBlock\<close> is accepted by the client that made it: it has a valid difficulty,
  verifies on the main chain, and passes the prevalidation, provided its coinbase is below the size limit.
\<close>

theorem new_block_accepted:
  assumes "curve_ok (eCurve E)" "good_rcpt (eCurve E) address"
    and "NewBlock E c prev address now r = Ok b"
  shows "PostValidBlock E c b None None = Ok True
    \<and> PrevalidBlock (eHash E) (encT E) b = (length (encT E (hd (bkTxns b))) < MAX_BLOCK_SIZE)"
  using assms by (rule NewBlock_accepted)

theorem new_block_accepted_witness:
  "\<exists>b. NewBlock demo_env demo_stored demo_header demo_rcpt \<lparr>tmNano = 5, tmZone = 0\<rparr> 3 = Ok b
    \<and> PostValidBlock demo_env demo_stored b None None = Ok True"
proof -
  have pool: "TxnsFromPool demo_env demo_stored = Ok []"
    by (simp add: TxnsFromPool_def demo_env_def alist_db_def demo_stored_def demo_client_def)
  obtain cb where cb: "NewCoinbaseTxn (eHash demo_env) (eCurve demo_env) demo_rcpt (bhSeqNum demo_header + 1) 0 3 = Ok cb"
    using NewCoinbaseTxn_good [of log_curve demo_rcpt] good_demo_rcpt by fastforce
  then obtain b where b: "NewBlock demo_env demo_stored demo_header demo_rcpt \<lparr>tmNano = 5, tmZone = 0\<rparr> 3 = Ok b"
    by (simp add: NewBlock_def pool Let_def ComputeDifficulty_def demo_header_def DIFFICULTY_SPACING_def)
  have "curve_ok (eCurve demo_env)" "good_rcpt (eCurve demo_env) demo_rcpt" using good_demo_rcpt by simp_all
  from new_block_accepted [OF this b] b show ?thesis by blast
qed

text \<open>
  C37: Retargeting moves the difficulty by at most one from that of the header 2016 blocks back, whatever the
  floating-point quotient comes to (unless that difficulty is the largest 64-bit number, where the upper bound
  wraps to zero); with no such ancestor the required difficulty is \<open>2^63\<close>.
\<close>

theorem difficulty_step_bounded:
  assumes "2016 < unat (bhSeqNum (bkHeader b))"
  shows "case NthAncestorHeader E c (bhPrevHash (bkHeader b)) 2016 of
      Ok anc \<Rightarrow> \<exists>d. ComputeDifficulty E c b = Ok d
        \<and> (if bhDifficulty anc = - 1 then d = 0 else \<bar>uint d - uint (bhDifficulty anc)\<bar> \<le> 1)
    | Err e \<Rightarrow> ComputeDifficulty E c b = Ok (2 ^ 63)
    | Panic \<Rightarrow> ComputeDifficulty E c b = Panic"
proof -
  have far: "\<not> bhSeqNum (bkHeader b) \<le> of_nat DIFFICULTY_SPACING"
    using assms by (simp add: word_le_nat_alt DIFFICULTY_SPACING_def)
  have near: "\<bar>uint (clamp_target old new) - uint old\<bar> \<le> 1" if "old \<noteq> - 1" for old new
    using clamp_target_bounds [OF that, of new] by (simp only: uint_nat)
  have wrap: "clamp_target (- 1) new = 0" for new
    by (simp add: clamp_target_def Let_def word_gt_0)
  have top: "push_bit 63 1 = (2 ^ 63 :: u64)" by (simp add: push_bit_eq_mult)
  show ?thesis
  proof (cases "NthAncestorHeader E c (bhPrevHash (bkHeader b)) 2016")
    case (Ok anc)
    let ?d = "clamp_target (bhDifficulty anc) (eRetarget E (bhDifficulty anc) (signed_take_bit 63 (Unix (bhTime (bkHeader b)) - Unix (bhTime anc))))"
    have "ComputeDifficulty E c b = Ok ?d"
      using far Ok by (simp add: ComputeDifficulty_def DIFFICULTY_SPACING_def Let_def)
    moreover have "if bhDifficulty anc = - 1 then ?d = 0 else \<bar>uint ?d - uint (bhDifficulty anc)\<bar> \<le> 1"
      using near wrap by simp
    ultimately show ?thesis unfolding Ok by auto
  next
    case (Err e)
    then show ?thesis
      using far by (simp only: ComputeDifficulty_def DIFFICULTY_SPACING_def res_try_simps res.case if_False top of_nat_numeral)
  next
    case Panic
    then show ?thesis
      using far by (simp only: ComputeDifficulty_def DIFFICULTY_SPACING_def res_try_simps res.case if_False of_nat_numeral)
  qed
qed

definition looped :: "(bytes \<times> bytes) list Client" where
  "looped = demo_client\<lparr>dbm := (dbm demo_client)\<lparr>headerDB := [(sum_bytes 7, codec_enc (demo_header\<lparr>bhPrevHash := 7\<rparr>))]\<rparr>\<rparr>"

lemma looped_ancestor: "nth_ancestor demo_env looped (Suc n) 7 h0 = Ok (demo_header\<lparr>bhPrevHash := 7\<rparr>)"
proof -
  have "GetHeader demo_env looped 7 = Ok (Some (demo_header\<lparr>bhPrevHash := 7\<rparr>))"
    by (simp add: looped_def GetHeader_def db_get_def demo_env_def alist_db_def demo_client_def of_sum_def)
  then show ?thesis by (induction n arbitrary: h0) simp_all
qed

theorem difficulty_step_bounded_witness:
  "\<exists>d. ComputeDifficulty demo_env looped \<lparr>bkHeader = demo_header\<lparr>bhSeqNum := 2017, bhPrevHash := 7\<rparr>, bkTxns = []\<rparr> = Ok d
    \<and> \<bar>uint d - 16\<bar> \<le> 1"
proof -
  have "NthAncestorHeader demo_env looped 7 2016 = Ok (demo_header\<lparr>bhPrevHash := 7\<rparr>)"
    using looped_ancestor [of 2015] by (simp add: NthAncestorHeader_def numeral_eq_Suc del: nth_ancestor.simps)
  then show ?thesis
    using difficulty_step_bounded [of "\<lparr>bkHeader = demo_header\<lparr>bhSeqNum := 2017, bhPrevHash := 7\<rparr>, bkTxns = []\<rparr>" demo_env looped]
    by (simp add: demo_header_def)
qed

text \<open>
  Neither total difficulty can be computed: both loops leave only through a missing header, which
  the database reports as an error, so whenever they end they end with an error.
\<close>

lemma total_difficulty_never_succeeds:
  assumes "env_ok E"
  shows "MainChainTotalDifficulty E c \<noteq> Some (Ok d) \<and> SideChainTotalDifficulty E c h \<noteq> Some (Ok d)"
  using main_diff_err [OF assms, of c "header_hash E (LastHeader c)" 0 "Ok d"] side_diff_err [OF assms, of c h 0 "Ok d"]
  by (auto simp: MainChainTotalDifficulty_def SideChainTotalDifficulty_def)

lemma total_difficulty_never_succeeds_witness:
  "MainChainTotalDifficulty demo_env demo_stored \<noteq> Some (Ok 16)"
  using total_difficulty_never_succeeds [OF env_ok_demo_env] by blast

end
