(* ===== verification/Consensus.thy ===== *)
theory Consensus
  imports Verify
begin

text \<open>
  \<^verbatim>\<open>WriteBlock\<close> of \<^verbatim>\<open>block.go\<close>, \<^verbatim>\<open>consensus.go\<close>, and the tasks and
  filters of \<^verbatim>\<open>client.go\<close>: what a client does with a block or a transaction it is told about
  or has made itself.  A call that may not return has a result of type option, \<open>None\<close> if it
  does not; broadcasts and calls of the wallet are goroutines in the client's \<open>spawned\<close> list.
\<close>

section \<open>Writing a block\<close>

text \<open>The preimage hashes of the transactions after the coinbase.\<close>

fun block_pimgs :: "'d env \<Rightarrow> nat \<Rightarrow> Txn list \<Rightarrow> SHA256Sum list res" where
  "block_pimgs E i [] = Ok []"
| "block_pimgs E i (txn # txns) =
     (if i \<noteq> 0
      then res_bind (pimg_hash E txn) (\<lambda>pimgHash. res_bind (block_pimgs E (Suc i) txns) (\<lambda>rest. Ok (pimgHash # rest)))
      else block_pimgs E (Suc i) txns)"

definition write_pimgs :: "'d env \<Rightarrow> SHA256Sum list \<Rightarrow> ('d Client, unit) go" where
  "write_pimgs E pimgs = db_upd (\<lambda>d. ldbWrite (eLdb E) d (map (\<lambda>h. BPut (sum_bytes h) (sum_bytes h)) pimgs)) pimgDB pimgDB_update"

definition clear_pool :: "'d env \<Rightarrow> SHA256Sum list \<Rightarrow> ('d Client, unit) go" where
  "clear_pool E pimgs = db_upd (\<lambda>d. ldbWrite (eLdb E) d (map (\<lambda>h. BDelete (sum_bytes h)) pimgs)) txnPoolDB txnPoolDB_update"

definition WriteBlock :: "'d env \<Rightarrow> Block \<Rightarrow> ('d Client, unit) go" where
  "WriteBlock E b =
     go_bind (go_when (\<lambda>c. cType c = BLOCKCHAIN_CLIENT) (PutBlock E b)) (\<lambda>u.
     go_bind (go_read (\<lambda>c. block_pimgs E 0 (bkTxns b))) (\<lambda>pimgs.
     go_bind (write_pimgs E pimgs) (\<lambda>u.
     go_bind (PutMapToBlock E b) (\<lambda>u.
       clear_pool E pimgs))))"

section \<open>Extending the main chain\<close>

definition ExtendMainChain :: "'d env \<Rightarrow> BlockHeader \<Rightarrow> Block \<Rightarrow> ('d Client, bool) go" where
  "ExtendMainChain E header block =
     go_bind (go_read (\<lambda>c. PostValidBlock E c block None None)) (\<lambda>ok.
       if \<not> ok then go_ret False
       else go_bind (PutHeader E header) (\<lambda>u.
            go_bind (WriteBlock E block) (\<lambda>u.
            go_bind (go_when UpdateWallet (spawn_go (WalletNewBlock block))) (\<lambda>u.
            go_bind (go_modify (\<lambda>c. c\<lparr>LastHeader := header\<rparr>)) (\<lambda>u. go_ret True)))))"

section \<open>Finding the fork\<close>

text \<open>The two loops; neither moves on from its hash, so they repeat until a read stops them.\<close>

partial_function (option) side_walk :: "'d env \<Rightarrow> 'd Client \<Rightarrow> SHA256Sum \<Rightarrow> SHA256Sum list \<Rightarrow> SHA256Sum list option res option" where
  "side_walk E c prevHash sideHashes =
     (case GetHeader E c prevHash of
        Err e \<Rightarrow> Some (Err e)
      | Panic \<Rightarrow> Some Panic
      | Ok prevHeader \<Rightarrow>
          if prevHeader \<noteq> None then Some (Ok (Some (sideHashes @ [prevHash])))
          else (case GetSideHeader E c prevHash of
                  Err e \<Rightarrow> Some (Err e)
                | Panic \<Rightarrow> Some Panic
                | Ok prevHeader \<Rightarrow>
                    if prevHeader = None then Some (Ok None) else side_walk E c prevHash (sideHashes @ [prevHash])))"

partial_function (option) main_walk :: "'d env \<Rightarrow> 'd Client \<Rightarrow> SHA256Sum \<Rightarrow> SHA256Sum \<Rightarrow> SHA256Sum list \<Rightarrow> SHA256Sum list option res option" where
  "main_walk E c forkHash prevHash mainHashes =
     (case GetHeader E c prevHash of
        Err e \<Rightarrow> Some (Err e)
      | Panic \<Rightarrow> Some Panic
      | Ok prevHeader \<Rightarrow>
          if prevHeader = None then Some (Ok None)
          else if prevHash = forkHash then Some (Ok (Some mainHashes))
          else main_walk E c forkHash prevHash (mainHashes @ [prevHash]))"

text \<open>The paths of the main and the side chain after the fork; \<open>Ok None\<close> are two nil slices.\<close>

definition FindForkPaths :: "'d env \<Rightarrow> 'd Client \<Rightarrow> SHA256Sum \<Rightarrow> (SHA256Sum list \<times> SHA256Sum list) option res option" where
  "FindForkPaths E c sidehash =
     (case res_bind (GetSideHeader E c sidehash) deref of
        Err e \<Rightarrow> Some (Err e)
      | Panic \<Rightarrow> Some Panic
      | Ok prevHeader \<Rightarrow>
          (let prevHash = bhPrevHash prevHeader
           in case side_walk E c prevHash [prevHash] of
                None \<Rightarrow> None
              | Some (Err e) \<Rightarrow> Some (Err e)
              | Some Panic \<Rightarrow> Some Panic
              | Some (Ok None) \<Rightarrow> Some (Ok None)
              | Some (Ok (Some sideHashes)) \<Rightarrow>
                  (let forkHash = last sideHashes
                   in case main_walk E c forkHash (header_hash E (LastHeader c)) [] of
                        None \<Rightarrow> None
                      | Some r \<Rightarrow> Some (res_bind r (\<lambda>mainHashes. Ok (map_option (\<lambda>m. (m, sideHashes)) mainHashes))))))"

section \<open>Swapping the main chain for a side chain\<close>

fun main_header_ops :: "'d env \<Rightarrow> 'd Client \<Rightarrow> SHA256Sum list \<Rightarrow> (batch_op list \<times> batch_op list) res" where
  "main_header_ops E c [] = Ok ([], [])"
| "main_header_ops E c (hash # path) =
     res_bind (GetHeader E c hash) (\<lambda>h. res_bind (deref h) (\<lambda>hd1.
       res_bind (main_header_ops E c path) (\<lambda>(headerBatch, sideHeaderBatch).
         Ok (BDelete (sum_bytes hash) # headerBatch, BPut (sum_bytes hash) (encH E hd1) # sideHeaderBatch))))"

fun side_header_ops :: "'d env \<Rightarrow> 'd Client \<Rightarrow> SHA256Sum list \<Rightarrow> (batch_op list \<times> batch_op list) res" where
  "side_header_ops E c [] = Ok ([], [])"
| "side_header_ops E c (hash # path) =
     res_bind (GetHeader E c hash) (\<lambda>h. res_bind (deref h) (\<lambda>hd1.
       res_bind (side_header_ops E c path) (\<lambda>(headerBatch, sideHeaderBatch).
         Ok (BPut (sum_bytes hash) (encH E hd1) # headerBatch, BDelete (sum_bytes hash) # sideHeaderBatch))))"

text \<open>The batches built from the blocks of a path, with the blocks.\<close>

record swap_batches =
  swBlocks :: "Block list"
  swBlock :: "batch_op list"
  swSideBlock :: "batch_op list"
  swPimg :: "batch_op list"
  swPool :: "batch_op list"

fun all_pimgs :: "'d env \<Rightarrow> Txn list \<Rightarrow> (Txn \<times> SHA256Sum) list res" where
  "all_pimgs E [] = Ok []"
| "all_pimgs E (txn # txns) =
     res_bind (pimg_hash E txn) (\<lambda>p. res_bind (all_pimgs E txns) (\<lambda>rest. Ok ((txn, p) # rest)))"

fun swap_blocks :: "'d env \<Rightarrow> 'd Client \<Rightarrow> bool \<Rightarrow> SHA256Sum list \<Rightarrow> swap_batches \<Rightarrow> swap_batches res" where
  "swap_blocks E c adding [] s = Ok s"
| "swap_blocks E c adding (hash # path) s =
     res_bind (res_try (GetBlock E c hash) Ok (\<lambda>e. Panic)) (\<lambda>block. res_bind (deref block) (\<lambda>b.
       res_bind (all_pimgs E (bkTxns b)) (\<lambda>ps.
         let key = sum_bytes hash in
         if adding
         then swap_blocks E c adding path
           \<lparr>swBlocks = swBlocks s @ [b],
            swBlock = swBlock s @ [BPut key (encBk E b)], swSideBlock = swSideBlock s @ [BDelete key],
            swPimg = swPimg s @ map (\<lambda>(t, p). BPut (sum_bytes p) (sum_bytes p)) ps,
            swPool = swPool s @ map (\<lambda>(t, p). BDelete (sum_bytes p)) ps\<rparr>
         else swap_blocks E c adding path
           \<lparr>swBlocks = swBlocks s @ [b],
            swBlock = swBlock s @ [BDelete key], swSideBlock = swSideBlock s @ [BPut key (encBk E b)],
            swPimg = swPimg s @ map (\<lambda>(t, p). BDelete (sum_bytes p)) ps,
            swPool = swPool s @ (if cType c = BLOCKCHAIN_CLIENT
                                 then map (\<lambda>(t, p). BPut (sum_bytes p) (encT E t)) ps else [])\<rparr>)))"

fun each_block :: "'d env \<Rightarrow> (Block \<Rightarrow> ('d Client, unit) go) \<Rightarrow> SHA256Sum list \<Rightarrow> ('d Client, unit) go" where
  "each_block E f [] = go_ret ()"
| "each_block E f (hash # path) =
     go_bind (go_read (\<lambda>c. res_bind (FindBlock E c hash) deref)) (\<lambda>block.
     go_bind (f block) (\<lambda>u. each_block E f path))"

definition SwapMainFork :: "'d env \<Rightarrow> SHA256Sum list \<Rightarrow> SHA256Sum list \<Rightarrow> ('d Client, unit) go" where
  "SwapMainFork E mainPath sidePath =
     go_bind (go_read (\<lambda>c. res_bind (main_header_ops E c mainPath) (\<lambda>m.
                res_bind (side_header_ops E c sidePath) (\<lambda>s. Ok (fst m @ fst s, snd m @ snd s)))))
       (\<lambda>(headerBatch, sideHeaderBatch).
     go_bind (db_upd (\<lambda>d. ldbWrite (eLdb E) d headerBatch) headerDB headerDB_update) (\<lambda>u.
     go_bind (db_upd (\<lambda>d. ldbWrite (eLdb E) d headerBatch) sideHeaderDB sideHeaderDB_update) (\<lambda>u.
     go_bind (go_read (\<lambda>c. swap_blocks E c False mainPath
                \<lparr>swBlocks = [], swBlock = [], swSideBlock = [], swPimg = [], swPool = []\<rparr>)) (\<lambda>del.
     go_bind (go_read (\<lambda>c. swap_blocks E c True sidePath (del\<lparr>swBlocks := []\<rparr>))) (\<lambda>add.
     go_bind (db_upd (\<lambda>d. ldbWrite (eLdb E) d (swPimg add)) pimgDB pimgDB_update) (\<lambda>u.
     go_bind (db_upd (\<lambda>d. ldbWrite (eLdb E) d (swPool add)) txnPoolDB txnPoolDB_update) (\<lambda>u.
     go_bind (go_when (\<lambda>c. cType c = BLOCKCHAIN_CLIENT)
               (go_bind (db_upd (\<lambda>d. ldbWrite (eLdb E) d (swBlock add)) blockDB blockDB_update) (\<lambda>u.
                 db_upd (\<lambda>d. ldbWrite (eLdb E) d (swSideBlock add)) sideBlockDB sideBlockDB_update))) (\<lambda>u.
     go_bind (each_block E (DeleteMapToBlock E) mainPath) (\<lambda>u.
     go_bind (each_block E (PutMapToBlock E) sidePath) (\<lambda>u.
       go_when UpdateWallet (spawn_go (WalletSwap (swBlocks del) (swBlocks add)))))))))))))"

section \<open>Extending a side chain\<close>

definition ExtendSideChain :: "'d env \<Rightarrow> BlockHeader \<Rightarrow> Block \<Rightarrow> 'd Client \<Rightarrow> (bool res \<times> 'd Client) option" where
  "ExtendSideChain E header block c =
     (case FindForkPaths E c (header_hash E header) of
        None \<Rightarrow> None
      | Some (Err e) \<Rightarrow> Some (Err e, c)
      | Some Panic \<Rightarrow> Some (Panic, c)
      | Some (Ok paths) \<Rightarrow>
     (case MainChainTotalDifficulty E c of
        None \<Rightarrow> None
      | Some (Err e) \<Rightarrow> Some (Err e, c)
      | Some Panic \<Rightarrow> Some (Panic, c)
      | Some (Ok mainDiff) \<Rightarrow>
     (case SideChainTotalDifficulty E c (bhPrevHash header) of
        None \<Rightarrow> None
      | Some (Err e) \<Rightarrow> Some (Err e, c)
      | Some Panic \<Rightarrow> Some (Panic, c)
      | Some (Ok sideDiff0) \<Rightarrow>
          (let sideDiff = sideDiff0 + bhDifficulty header;
               mainPath = map_option fst paths; sidePath = map_option snd paths
           in Some
             (if mainDiff > sideDiff
              then go_bind (go_read (\<lambda>c. PostValidBlock E c block mainPath sidePath)) (\<lambda>ok.
                     if \<not> ok then go_ret False
                     else go_bind (PutSideHeader E header) (\<lambda>u.
                          go_bind (PutSideBlock E block) (\<lambda>u. go_ret True))) c
              else go_bind (SwapMainFork E (path_list mainPath) (path_list sidePath)) (\<lambda>u.
                   go_bind (go_modify (\<lambda>c. c\<lparr>LastHeader := header\<rparr>)) (\<lambda>u. go_ret True)) c)))))"

section \<open>Resolving a block\<close>

text \<open>\<^verbatim>\<open>ValidHeader\<close> and \<^verbatim>\<open>PrevalidBlock\<close>, tried in this order.\<close>

definition prechecked :: "'d env \<Rightarrow> Block \<Rightarrow> bool res" where
  "prechecked E block =
     res_bind (ValidHeader (eHash E) (encH E) (eNow E) (bkHeader block)) (\<lambda>ok.
       if \<not> ok then Ok False else Ok (PrevalidBlock (eHash E) (encT E) block))"

definition save_orphan :: "'d env \<Rightarrow> Block \<Rightarrow> ('d Client, bool) go" where
  "save_orphan E block =
     go_bind (PutOrphanHeader E (bkHeader block)) (\<lambda>u.
     go_bind (go_when (\<lambda>c. cType c = BLOCKCHAIN_CLIENT) (PutOrphanBlock E block)) (\<lambda>u. go_ret False))"

text \<open>What is done once the parent has been tried: give up, cache the orphan, or extend a chain.\<close>

definition after_parent :: "'d env \<Rightarrow> Block \<Rightarrow> bool res \<times> 'd Client \<Rightarrow> (bool res \<times> 'd Client) option" where
  "after_parent E block = (\<lambda>(r, c).
     case r of
       Err e \<Rightarrow> Some (Err e, c)
     | Panic \<Rightarrow> Some (Panic, c)
     | Ok success \<Rightarrow>
         if \<not> success then Some (save_orphan E block c)
         else (case GetHeader E c (bhPrevHash (bkHeader block)) of
                 Ok h \<Rightarrow> Some (ExtendMainChain E (bkHeader block) block c)
               | Panic \<Rightarrow> Some (Panic, c)
               | Err e \<Rightarrow>
                   (case GetSideHeader E c (bhPrevHash (bkHeader block)) of
                      Err e \<Rightarrow> ExtendSideChain E (bkHeader block) block c
                    | Ok h \<Rightarrow> Some (Panic, c)
                    | Panic \<Rightarrow> Some (Panic, c))))"

text \<open>The recursion follows the parents; it need not end, so this is a partial function.\<close>

partial_function (option) AddOrOrphanHelper :: "'d env \<Rightarrow> HashMsg \<Rightarrow> 'd Client \<Rightarrow> (bool res \<times> 'd Client) option" where
  "AddOrOrphanHelper E req c =
     (case LoadOrFetchBlock E c req of
        Err e \<Rightarrow> Some (Err (ErrMsg ''Unable to load previous block''), c)
      | Panic \<Rightarrow> Some (Panic, c)
      | Ok block \<Rightarrow>
     (case prechecked E block of
        Err e \<Rightarrow> Some (Err e, c)
      | Panic \<Rightarrow> Some (Panic, c)
      | Ok ok \<Rightarrow>
     if \<not> ok then Some (Ok False, c)
     else if bhPrevHash (bkHeader block) = header_hash E (LastHeader c) \<or> bhPrevHash (bkHeader block) = 0
     then Some (ExtendMainChain E (bkHeader block) block c)
     else
     (case GetHeader E c (bhPrevHash (bkHeader block)) of
        Ok h \<Rightarrow> ExtendSideChain E (bkHeader block) block c
      | Panic \<Rightarrow> Some (Panic, c)
      | Err e \<Rightarrow>
     (case GetSideHeader E c (bhPrevHash (bkHeader block)) of
        Ok h \<Rightarrow> ExtendSideChain E (bkHeader block) block c
      | Panic \<Rightarrow> Some (Panic, c)
      | Err e \<Rightarrow>
     Option.bind (AddOrOrphanHelper E (NewHash req (bhPrevHash (bkHeader block))) c) (after_parent E block)))))"

text \<open>The task a block announcement starts, between the start signal and the completion signal.\<close>

definition AddOrOrphan :: "'d env \<Rightarrow> HashMsg \<Rightarrow> 'd Client \<Rightarrow> (unit res \<times> 'd Client) option" where
  "AddOrOrphan E req c =
     map_option (\<lambda>(r, c1).
       case r of
         Panic \<Rightarrow> (Panic, c1)
       | Err e \<Rightarrow> (Ok (), c1)
       | Ok success \<Rightarrow>
           if success then go_try (BcastBlock E (hmHash req)) go_ret (\<lambda>e. go_ret ()) c1 else (Ok (), c1))
       (AddOrOrphanHelper E req c)"

section \<open>Transactions\<close>

definition AddToTxnPoolHelper :: "'d env \<Rightarrow> HashMsg \<Rightarrow> ('d Client, bool) go" where
  "AddToTxnPoolHelper E req =
     go_bind (go_read (\<lambda>c. LoadOrFetchTxn E c req)) (\<lambda>txn.
       if \<not> ValidTxn (encT E) txn \<and> \<not> ValidCoinbaseTxn (encT E) txn then go_err (ErrMsg ''Invalid txn'')
       else go_bind (PutTxnPool E txn) (\<lambda>u. go_ret True))"

definition AddToTxnPool :: "'d env \<Rightarrow> HashMsg \<Rightarrow> ('d Client, unit) go" where
  "AddToTxnPool E req =
     go_try (AddToTxnPoolHelper E req)
       (\<lambda>success. if success then go_try (BcastTxn E (hmHash req)) go_ret (\<lambda>e. go_ret ()) else go_ret ())
       (\<lambda>e. go_ret ())"

definition AdoptTxn :: "'d env \<Rightarrow> Txn \<Rightarrow> ('d Client, unit) go" where
  "AdoptTxn E txn =
     (if \<not> ValidTxn (encT E) txn \<and> \<not> ValidCoinbaseTxn (encT E) txn then go_ret ()
      else go_try (PutTxnPool E txn)
        (\<lambda>u. go_try (BcastTxn E (Txn_Hash E txn)) go_ret (\<lambda>e. go_ret ()))
        (\<lambda>e. go_ret ()))"

definition AdoptMinedBlock :: "'d env \<Rightarrow> Block \<Rightarrow> ('d Client, unit) go" where
  "AdoptMinedBlock E block = (\<lambda>c.
     if bhSeqNum (bkHeader block) \<noteq> 0 \<and> header_hash E (LastHeader c) \<noteq> bhPrevHash (bkHeader block) then (Ok (), c)
     else go_bind (go_read (\<lambda>c. prechecked E block)) (\<lambda>ok.
       if \<not> ok then go_ret ()
       else go_try (ExtendMainChain E (bkHeader block) block)
         (\<lambda>success. if \<not> success then go_ret ()
                    else go_try (BcastBlock E (header_hash E (bkHeader block))) go_ret (\<lambda>e. go_ret ()))
         (\<lambda>e. go_ret ())) c)"

section \<open>Filters of announcements\<close>

text \<open>\<open>Ok ()\<close> is the nil error: the client knows the block or the transaction already.\<close>

definition FilterBlock :: "'d env \<Rightarrow> 'd Client \<Rightarrow> HashMsg \<Rightarrow> unit res" where
  "FilterBlock E c req =
     res_try (GetHeader E c (hmHash req)) (\<lambda>h. Ok ()) (\<lambda>e.
     res_try (GetSideHeader E c (hmHash req)) (\<lambda>h. Ok ()) (\<lambda>e.
     res_bind (GetOrphanHeader E c (hmHash req)) (\<lambda>h. Ok ())))"

definition FilterTxn :: "'d env \<Rightarrow> 'd Client \<Rightarrow> HashMsg \<Rightarrow> unit res" where
  "FilterTxn E c req =
     res_try (GetTxnPool E c (hmHash req)) (\<lambda>t. Ok ()) (\<lambda>e.
       if GetPreimage E c (hmHash req) then Ok () else Err e)"

section \<open>How the databases grow\<close>

lemma apply_self_puts: "apply_batch (map (\<lambda>h. BPut (f h) (f h)) ks) m = (\<lambda>k. if k \<in> f ` set ks then Some k else m k)"
  by (induction ks arbitrary: m) auto

lemma GetPreimage_write_pimgs:
  assumes "env_ok E"
  shows "GetPreimage E (snd (write_pimgs E ps c)) p \<longleftrightarrow>
    (fst (write_pimgs E ps c) = Ok () \<and> p \<in> set ps) \<or> GetPreimage E c p"
proof -
  obtain view where view: "ldb_ok (eLdb E) view" using assms by (auto simp: env_ok_def)
  let ?ops = "map (\<lambda>h. BPut (sum_bytes h) (sum_bytes h)) ps"
  have "ldbGet (eLdb E) (snd (ldbWrite (eLdb E) d ?ops)) k =
      (if fst (ldbWrite (eLdb E) d ?ops) = None \<and> k \<in> sum_bytes ` set ps then Inr (Some k) else ldbGet (eLdb E) d k)" for d k
    using view by (auto simp: ldb_ok_def apply_self_puts)
  then show ?thesis
    by (auto simp: GetPreimage_iff write_pimgs_def slice_def split: option.splits)
qed

lemma GetTxnPool_clear_pool:
  assumes "env_ok E" "clear_pool E ps c = (Ok (), c')"
  shows "GetTxnPool E c' h = (if h \<in> set ps then Err ErrNotFound else GetTxnPool E c h)"
proof -
  obtain view where view: "ldb_ok (eLdb E) view" using assms(1) by (auto simp: env_ok_def)
  have "fst (ldbWrite (eLdb E) (txnPoolDB (dbm c)) (map (\<lambda>h. BDelete (sum_bytes h)) ps)) = None"
    and "txnPoolDB (dbm c') = snd (ldbWrite (eLdb E) (txnPoolDB (dbm c)) (map (\<lambda>h. BDelete (sum_bytes h)) ps))"
    using assms(2) by (auto simp: clear_pool_def db_upd_cases split: option.splits)
  then show ?thesis
    using ldb_get_deletes [OF view, of "txnPoolDB (dbm c)" sum_bytes ps "sum_bytes h"]
    by (auto simp: GetTxnPool_def db_get_def image_iff)
qed

text \<open>Each table is read from one database only.\<close>

lemma read_congs:
  "headerDB (dbm c) = headerDB (dbm c') \<Longrightarrow> GetHeader E c h = GetHeader E c' h"
  "blockDB (dbm c) = blockDB (dbm c') \<Longrightarrow> GetBlock E c h = GetBlock E c' h"
  "pimgDB (dbm c) = pimgDB (dbm c') \<Longrightarrow> GetPreimage E c h = GetPreimage E c' h"
  "mapDB (dbm c) = mapDB (dbm c') \<Longrightarrow> MapToBlock E c h = MapToBlock E c' h"
  "txnPoolDB (dbm c) = txnPoolDB (dbm c') \<Longrightarrow> GetTxnPool E c h = GetTxnPool E c' h"
  by (simp_all add: GetHeader_def GetBlock_def GetPreimage_def MapToBlock_def GetTxnPool_def)

text \<open>The knowledge of a client about its chain, which only grows.\<close>

definition chain_grows :: "'d env \<Rightarrow> 'd Client \<Rightarrow> 'd Client \<Rightarrow> bool" where
  "chain_grows E c c' \<longleftrightarrow> cType c' = cType c
     \<and> (\<forall>p. GetPreimage E c p \<longrightarrow> GetPreimage E c' p)
     \<and> (\<forall>h. is_ok (GetHeader E c h) \<longrightarrow> is_ok (GetHeader E c' h))
     \<and> (\<forall>h. is_ok (GetBlock E c h) \<longrightarrow> is_ok (GetBlock E c' h))"

interpretation growth: state_order chain_grows
  by unfold_locales (auto simp: chain_grows_def)

lemma chain_grows_same:
  "cType c' = cType c \<Longrightarrow> headerDB (dbm c') = headerDB (dbm c) \<Longrightarrow> blockDB (dbm c') = blockDB (dbm c) \<Longrightarrow>
    pimgDB (dbm c') = pimgDB (dbm c) \<Longrightarrow> chain_grows E c c'"
  using read_congs(1-3) [of c' c E] by (simp add: chain_grows_def)

lemma keeps_simple:
  "keeps (chain_grows E) (PutMapToBlock E b)" "keeps (chain_grows E) (clear_pool E ps)"
  "keeps (chain_grows E) (PutTxnPool E t)" "keeps (chain_grows E) (spawn_go g)"
  "keeps (chain_grows E) (PutOrphanHeader E h)" "keeps (chain_grows E) (PutOrphanBlock E b)"
  "keeps (chain_grows E) (PutPeer E a)" "keeps (chain_grows E) (bcast E m x)" "keeps (chain_grows E) (sendBcast E a)"
  "keeps (chain_grows E) (go_modify (\<lambda>c. c\<lparr>LastHeader := hd1\<rparr>))"
  by (auto simp: keeps_def PutMapToBlock_def clear_pool_def PutTxnPool_def spawn_go_def PutOrphanHeader_def PutOrphanBlock_def
      PutPeer_def bcast_def sendBcast_def Let_def go_bind_read go_try_apply db_upd_cases split: res.splits option.splits prod.splits
      intro!: chain_grows_same)

lemma keeps_PutHeader: "env_ok E \<Longrightarrow> keeps (chain_grows E) (PutHeader E h)"
  using header_table.get_put [of E h]
  by (auto simp: keeps_def chain_grows_def PutHeader_def Let_def GetBlock_def GetPreimage_def)

lemma keeps_PutBlock: "env_ok E \<Longrightarrow> keeps (chain_grows E) (PutBlock E b)"
  using block_table.get_put [of E b]
  by (auto simp: keeps_def chain_grows_def PutBlock_def Let_def GetHeader_def GetPreimage_def)

lemma keeps_write_pimgs: "env_ok E \<Longrightarrow> keeps (chain_grows E) (write_pimgs E ps)"
  using GetPreimage_write_pimgs [of E ps]
  by (auto simp: keeps_def chain_grows_def) (auto simp: write_pimgs_def GetBlock_def GetHeader_def)

lemmas keeps_writes = keeps_simple keeps_PutHeader keeps_PutBlock keeps_write_pimgs

lemma keeps_WriteBlock: "env_ok E \<Longrightarrow> keeps (chain_grows E) (WriteBlock E b)"
  unfolding WriteBlock_def by (intro growth.keeps_intros keeps_writes)

lemma keeps_ExtendMainChain: "env_ok E \<Longrightarrow> keeps (chain_grows E) (ExtendMainChain E h b)"
  unfolding ExtendMainChain_def by (auto intro!: growth.keeps_intros keeps_writes keeps_WriteBlock)

lemma keeps_save_orphan: "keeps (chain_grows E) (save_orphan E b)"
  unfolding save_orphan_def by (intro growth.keeps_intros keeps_writes)

lemma keeps_AddToTxnPool: "keeps (chain_grows E) (AddToTxnPool E req)"
  unfolding AddToTxnPool_def AddToTxnPoolHelper_def BcastTxn_def
  by (auto intro!: growth.keeps_intros keeps_writes)

lemma keeps_AdoptTxn: "keeps (chain_grows E) (AdoptTxn E txn)"
  unfolding AdoptTxn_def BcastTxn_def by (auto intro!: growth.keeps_intros keeps_writes)

section \<open>No side chain is ever extended\<close>

lemma ExtendSideChain_fails:
  assumes "env_ok E"
  shows "ExtendSideChain E h b c \<in> {Some (Err ErrNotFound, c), Some (Err ErrUnmarshal, c)}"
  using side_reads(1) [OF assms, of c "header_hash E h"] by (auto simp: ExtendSideChain_def FindForkPaths_def)

text \<open>
  The recursion, for a relation that the main chain extension and the orphan writes move along: every
  outcome of resolving a block is reached along it.
\<close>

lemma AddOrOrphanHelper_keeps:
  assumes "env_ok E" and R: "\<And>c. R c c" "\<And>c d e. R c d \<Longrightarrow> R d e \<Longrightarrow> R c e"
    and main: "\<And>c b. R c (snd (ExtendMainChain E (bkHeader b) b c))" and orphan: "\<And>c b. R c (snd (save_orphan E b c))"
    and result: "AddOrOrphanHelper E req c = Some rc"
  shows "R c (snd rc)"
proof -
  have side: "ExtendSideChain E h b c = Some x \<Longrightarrow> snd x = c" for h b c x
    using ExtendSideChain_fails [OF assms(1), of h b c] by auto
  have after: "after_parent E b rc = Some rc' \<Longrightarrow> R (snd rc) (snd rc')" for b rc rc'
    by (auto simp: after_parent_def R(1) main orphan split: prod.splits res.splits if_splits dest!: side)
  have "E' = E \<longrightarrow> R c (snd rc)" if "AddOrOrphanHelper E' req c = Some rc" for E'
    apply (rule AddOrOrphanHelper.raw_induct [where P = "\<lambda>E' req c rc. E' = E \<longrightarrow> R c (snd rc)", OF _ that])
    subgoal premises prems for f E' req c rc
    proof
      assume E: "E' = E"
      have rec: "f E req' c = Some rc1 \<Longrightarrow> after_parent E b rc1 = Some rc \<Longrightarrow> R c (snd rc)" for req' b rc1
        using prems(1) [of E req' c rc1] after R(2) by blast
      show "R c (snd rc)"
        using prems(2) E rec by (auto simp: Option.bind_eq_Some_conv R(1) main split: res.splits if_splits dest!: side)
    qed
    done
  with result show ?thesis by blast
qed

lemma AddOrOrphanHelper_grows:
  assumes "env_ok E" "AddOrOrphanHelper E req c = Some rc"
  shows "chain_grows E c (snd rc)"
proof (rule AddOrOrphanHelper_keeps [where R = "chain_grows E", OF assms(1) _ _ _ _ assms(2)])
  show "chain_grows E c (snd (ExtendMainChain E (bkHeader b) b c))" for c b
    using keeps_ExtendMainChain [OF assms(1)] unfolding keeps_def by blast
  show "chain_grows E c (snd (save_orphan E b c))" for c b
    using keeps_save_orphan unfolding keeps_def by blast
qed (auto intro: growth.trans)

section \<open>What extending the main chain records\<close>

lemma WriteBlock_Ok:
  assumes "WriteBlock E b c = (Ok (), c')"
  shows "\<exists>c1 ps c2 c3. go_when (\<lambda>c. cType c = BLOCKCHAIN_CLIENT) (PutBlock E b) c = (Ok (), c1)
    \<and> block_pimgs E 0 (bkTxns b) = Ok ps \<and> write_pimgs E ps c1 = (Ok (), c2)
    \<and> PutMapToBlock E b c2 = (Ok (), c3) \<and> clear_pool E ps c3 = (Ok (), c')"
proof -
  from assms obtain c1 where c1: "go_when (\<lambda>c. cType c = BLOCKCHAIN_CLIENT) (PutBlock E b) c = (Ok (), c1)"
    and rest: "go_bind (go_read (\<lambda>c. block_pimgs E 0 (bkTxns b))) (\<lambda>pimgs. go_bind (write_pimgs E pimgs) (\<lambda>u.
      go_bind (PutMapToBlock E b) (\<lambda>u. clear_pool E pimgs))) c1 = (Ok (), c')"
    unfolding WriteBlock_def go_bind_eq_Ok by auto
  from rest obtain ps where "block_pimgs E 0 (bkTxns b) = Ok ps"
    "go_bind (write_pimgs E ps) (\<lambda>u. go_bind (PutMapToBlock E b) (\<lambda>u. clear_pool E ps)) c1 = (Ok (), c')"
    by (auto simp: go_bind_read split: res.splits)
  with c1 show ?thesis unfolding go_bind_eq_Ok by auto
qed

lemma PutMapToBlock_keys: "PutMapToBlock E b c = (Ok (), c') \<Longrightarrow> \<exists>ks. map_keys E 0 (bkTxns b) = Ok ks"
  by (auto simp: PutMapToBlock_def go_bind_read split: res.splits)

lemma write_frames:
  "headerDB (dbm (snd (PutBlock E b c))) = headerDB (dbm c)" "txnPoolDB (dbm (snd (PutBlock E b c))) = txnPoolDB (dbm c)"
  "pimgDB (dbm (snd (PutBlock E b c))) = pimgDB (dbm c)" "mapDB (dbm (snd (PutBlock E b c))) = mapDB (dbm c)"
  "headerDB (dbm (snd (write_pimgs E ps c))) = headerDB (dbm c)" "blockDB (dbm (snd (write_pimgs E ps c))) = blockDB (dbm c)"
  "mapDB (dbm (snd (write_pimgs E ps c))) = mapDB (dbm c)" "txnPoolDB (dbm (snd (write_pimgs E ps c))) = txnPoolDB (dbm c)"
  "headerDB (dbm (snd (clear_pool E ps c))) = headerDB (dbm c)" "blockDB (dbm (snd (clear_pool E ps c))) = blockDB (dbm c)"
  "mapDB (dbm (snd (clear_pool E ps c))) = mapDB (dbm c)" "pimgDB (dbm (snd (clear_pool E ps c))) = pimgDB (dbm c)"
  "headerDB (dbm (snd (PutMapToBlock E b c))) = headerDB (dbm c)" "blockDB (dbm (snd (PutMapToBlock E b c))) = blockDB (dbm c)"
  "pimgDB (dbm (snd (PutMapToBlock E b c))) = pimgDB (dbm c)" "txnPoolDB (dbm (snd (PutMapToBlock E b c))) = txnPoolDB (dbm c)"
  "blockDB (dbm (snd (PutHeader E h c))) = blockDB (dbm c)" "txnPoolDB (dbm (snd (PutHeader E h c))) = txnPoolDB (dbm c)"
  "pimgDB (dbm (snd (PutHeader E h c))) = pimgDB (dbm c)" "mapDB (dbm (snd (PutHeader E h c))) = mapDB (dbm c)"
  "cType (snd (PutHeader E h c)) = cType c"
  by (simp_all add: PutBlock_def write_pimgs_def clear_pool_def PutMapToBlock_def PutHeader_def Let_def go_bind_read split: res.splits)

lemma WriteBlock_effect:
  assumes "env_ok E" "WriteBlock E b c = (Ok (), c')"
  shows "\<exists>ps ks. block_pimgs E 0 (bkTxns b) = Ok ps \<and> map_keys E 0 (bkTxns b) = Ok ks
    \<and> GetHeader E c' = GetHeader E c
    \<and> (\<forall>k. GetBlock E c' k = (if cType c = BLOCKCHAIN_CLIENT \<and> k = header_hash E (bkHeader b) then Ok (Some b) else GetBlock E c k))
    \<and> (\<forall>p. GetPreimage E c' p \<longleftrightarrow> p \<in> set ps \<or> GetPreimage E c p)
    \<and> (\<forall>k. MapToBlock E c' k = (if k \<in> set ks then Ok (header_hash E (bkHeader b)) else MapToBlock E c k))
    \<and> (\<forall>k. GetTxnPool E c' k = (if k \<in> set ps then Err ErrNotFound else GetTxnPool E c k))"
proof -
  from WriteBlock_Ok [OF assms(2)] obtain c1 ps c2 c3
    where c1: "go_when (\<lambda>c. cType c = BLOCKCHAIN_CLIENT) (PutBlock E b) c = (Ok (), c1)"
      and ps: "block_pimgs E 0 (bkTxns b) = Ok ps" and c2: "write_pimgs E ps c1 = (Ok (), c2)"
      and c3: "PutMapToBlock E b c2 = (Ok (), c3)" and c': "clear_pool E ps c3 = (Ok (), c')"
    by blast
  obtain ks where ks: "map_keys E 0 (bkTxns b) = Ok ks" using PutMapToBlock_keys [OF c3] by blast
  have s2: "c2 = snd (write_pimgs E ps c1)" and s3: "c3 = snd (PutMapToBlock E b c2)" and s4: "c' = snd (clear_pool E ps c3)"
    using c2 c3 c' by simp_all
  have f1: "headerDB (dbm c1) = headerDB (dbm c)" "pimgDB (dbm c1) = pimgDB (dbm c)" "mapDB (dbm c1) = mapDB (dbm c)"
      "txnPoolDB (dbm c1) = txnPoolDB (dbm c)"
    and b1: "GetBlock E c1 k = (if cType c = BLOCKCHAIN_CLIENT \<and> k = header_hash E (bkHeader b) then Ok (Some b) else GetBlock E c k)" for k
    using c1 write_frames(1-4) [of E b c] block_table.get_put [OF assms(1), of b c k]
    by (auto simp: go_when_def split: if_splits)
  have "headerDB (dbm c') = headerDB (dbm c)" "blockDB (dbm c') = blockDB (dbm c1)" "pimgDB (dbm c') = pimgDB (dbm c2)"
    "mapDB (dbm c') = mapDB (dbm c3)" "txnPoolDB (dbm c3) = txnPoolDB (dbm c)" "mapDB (dbm c2) = mapDB (dbm c)"
    unfolding s4 s3 s2 by (simp_all add: write_frames f1)
  note dbs = this
  have "GetHeader E c' = GetHeader E c" "\<And>k. GetBlock E c' k = GetBlock E c1 k"
    "\<And>k. MapToBlock E c' k = MapToBlock E c3 k" "\<And>k. GetTxnPool E c3 k = GetTxnPool E c k" "\<And>k. MapToBlock E c2 k = MapToBlock E c k"
    using dbs by (auto intro: read_congs)
  moreover note read_congs(3) [OF dbs(3)]
  moreover have "GetPreimage E c2 p \<longleftrightarrow> p \<in> set ps \<or> GetPreimage E c p" for p
    using GetPreimage_write_pimgs [OF assms(1), of ps c1 p] c2 read_congs(3) [OF f1(2)] by simp
  ultimately show ?thesis
    using ps ks b1 MapToBlock_PutMapToBlock [OF assms(1) ks c3] GetTxnPool_clear_pool [OF assms(1) c'] by auto
qed

lemma ExtendMainChain_Ok:
  assumes "ExtendMainChain E h b c = (Ok True, c')"
  shows "\<exists>c1 c2. PostValidBlock E c b None None = Ok True \<and> PutHeader E h c = (Ok (), c1) \<and> WriteBlock E b c1 = (Ok (), c2)
    \<and> LastHeader c' = h \<and> dbm c' = dbm c2"
proof -
  have "PostValidBlock E c b None None = Ok True"
    using assms by (cases "PostValidBlock E c b None None") (auto simp: ExtendMainChain_def go_bind_read split: if_splits)
  with assms have "go_bind (PutHeader E h) (\<lambda>u. go_bind (WriteBlock E b) (\<lambda>u.
      go_bind (go_when UpdateWallet (spawn_go (WalletNewBlock b))) (\<lambda>u.
      go_bind (go_modify (\<lambda>c. c\<lparr>LastHeader := h\<rparr>)) (\<lambda>u. go_ret True)))) c = (Ok True, c')"
    by (simp add: ExtendMainChain_def go_bind_read)
  then obtain c1 c2 c3 where "PutHeader E h c = (Ok (), c1)" "WriteBlock E b c1 = (Ok (), c2)"
    "go_when UpdateWallet (spawn_go (WalletNewBlock b)) c2 = (Ok (), c3)" "c' = c3\<lparr>LastHeader := h\<rparr>"
    unfolding go_bind_eq_Ok by auto
  moreover from this have "dbm c3 = dbm c2" by (auto simp: go_when_def spawn_go_def split: if_splits)
  ultimately show ?thesis using \<open>PostValidBlock E c b None None = Ok True\<close> by auto
qed

lemma ExtendMainChain_effect:
  assumes "env_ok E" "ExtendMainChain E h b c = (Ok True, c')"
  shows "\<exists>ps ks. block_pimgs E 0 (bkTxns b) = Ok ps \<and> map_keys E 0 (bkTxns b) = Ok ks
    \<and> PostValidBlock E c b None None = Ok True \<and> LastHeader c' = h
    \<and> (\<forall>k. GetHeader E c' k = (if k = header_hash E h then Ok (Some h) else GetHeader E c k))
    \<and> (\<forall>k. GetBlock E c' k = (if cType c = BLOCKCHAIN_CLIENT \<and> k = header_hash E (bkHeader b) then Ok (Some b) else GetBlock E c k))
    \<and> (\<forall>p. GetPreimage E c' p \<longleftrightarrow> p \<in> set ps \<or> GetPreimage E c p)
    \<and> (\<forall>k. MapToBlock E c' k = (if k \<in> set ks then Ok (header_hash E (bkHeader b)) else MapToBlock E c k))
    \<and> (\<forall>k. GetTxnPool E c' k = (if k \<in> set ps then Err ErrNotFound else GetTxnPool E c k))"
proof -
  from ExtendMainChain_Ok [OF assms(2)] obtain c1 c2 where ok: "PostValidBlock E c b None None = Ok True"
    "PutHeader E h c = (Ok (), c1)" "WriteBlock E b c1 = (Ok (), c2)" "LastHeader c' = h" "dbm c' = dbm c2"
    by blast
  have s1: "c1 = snd (PutHeader E h c)" and okh: "fst (PutHeader E h c) = Ok ()" using ok(2) by simp_all
  have c1: "\<And>k. GetHeader E c1 k = (if k = header_hash E h then Ok (Some h) else GetHeader E c k)"
    "\<And>k. GetBlock E c1 k = GetBlock E c k" "\<And>k. GetPreimage E c1 k = GetPreimage E c k"
    "\<And>k. MapToBlock E c1 k = MapToBlock E c k" "\<And>k. GetTxnPool E c1 k = GetTxnPool E c k" "cType c1 = cType c"
    using header_table.get_put [OF assms(1), of h c] okh unfolding s1
    by (simp_all add: write_frames read_congs(2) [OF write_frames(17)] read_congs(3) [OF write_frames(19)]
        read_congs(4) [OF write_frames(20)] read_congs(5) [OF write_frames(18)])
  have c2: "\<And>k. GetHeader E c' k = GetHeader E c2 k"
    "\<And>k. GetBlock E c' k = GetBlock E c2 k" "\<And>k. GetPreimage E c' k = GetPreimage E c2 k"
    "\<And>k. MapToBlock E c' k = MapToBlock E c2 k" "\<And>k. GetTxnPool E c' k = GetTxnPool E c2 k"
    using ok(5) by (simp_all add: read_congs [of c' c2])
  show ?thesis
    using WriteBlock_effect [OF assms(1) ok(3)] ok(1,4) unfolding c1 c2 by auto
qed

lemma block_pimgs_Suc: "block_pimgs E (Suc i) txns = Ok ps \<Longrightarrow> t \<in> set txns \<Longrightarrow> pimg_hash E t = Ok p \<Longrightarrow> p \<in> set ps"
  by (induction txns arbitrary: i ps) (auto simp: res_bind_eq_Ok)

lemma block_pimgs_mem:
  "block_pimgs E 0 txns = Ok ps \<Longrightarrow> t \<in> set (tl txns) \<Longrightarrow> pimg_hash E t = Ok p \<Longrightarrow> p \<in> set ps"
  using block_pimgs_Suc by (cases txns) auto

section \<open>When the writes succeed\<close>

definition ldb_reliable :: "'d leveldb \<Rightarrow> bool" where
  "ldb_reliable L \<longleftrightarrow> (\<forall>d k v. fst (ldbPut L d k v) = None) \<and> (\<forall>d ops. fst (ldbWrite L d ops) = None)"

lemma db_upd_ok: "(\<And>d. fst (w d) = None) \<Longrightarrow> db_upd w sel upd c = (Ok (), snd (db_upd w sel upd c))"
  by (simp add: db_upd_cases)

lemma map_keys_total:
  "(\<And>t. t \<in> set txns \<Longrightarrow> \<exists>p. pimg_hash E t = Ok p) \<Longrightarrow> \<exists>ks. map_keys E (Suc i) txns = Ok ks"
proof (induction txns arbitrary: i)
  case (Cons t txns)
  obtain p where "pimg_hash E t = Ok p" using Cons.prems by auto
  moreover obtain ks where "map_keys E (Suc (Suc i)) txns = Ok ks" using Cons by fastforce
  ultimately show ?case by simp
qed simp

lemma block_pimgs_total:
  "(\<And>t. t \<in> set txns \<Longrightarrow> \<exists>p. pimg_hash E t = Ok p) \<Longrightarrow> \<exists>ps. block_pimgs E (Suc i) txns = Ok ps"
proof (induction txns arbitrary: i)
  case (Cons t txns)
  obtain p where "pimg_hash E t = Ok p" using Cons.prems by auto
  moreover obtain ps where "block_pimgs E (Suc (Suc i)) txns = Ok ps" using Cons by fastforce
  ultimately show ?case by simp
qed simp

lemma keys_total:
  assumes "\<And>t. t \<in> set (tl txns) \<Longrightarrow> \<exists>p. pimg_hash E t = Ok p"
  obtains ks ps where "map_keys E 0 txns = Ok ks" "block_pimgs E 0 txns = Ok ps"
proof (cases txns)
  case (Cons cb ts)
  with assms map_keys_total [of ts E 0] block_pimgs_total [of ts E 0] that show thesis by auto
qed (use that in simp)

lemma ExtendMainChain_total:
  assumes "ldb_reliable (eLdb E)" "PostValidBlock E c b None None = Ok True"
  shows "fst (ExtendMainChain E h b c) = Ok True"
proof -
  have "\<exists>p. pimg_hash E t = Ok p" if "t \<in> set (tl (bkTxns b))" for t
    using PostValidBlock_verified [OF assms(2) that] by (auto simp: VerifyTxn_iff)
  then obtain ks ps where "map_keys E 0 (bkTxns b) = Ok ks" "block_pimgs E 0 (bkTxns b) = Ok ps"
    using keys_total by blast
  with assms show ?thesis
    by (simp add: ExtendMainChain_def WriteBlock_def go_bind_read go_bind_apply PutHeader_def PutBlock_def go_when_def
        write_pimgs_def clear_pool_def PutMapToBlock_def Let_def db_upd_cases ldb_reliable_def spawn_go_def)
qed

lemma VerifyTxn_spent:
  "pimg_hash E t = Ok p \<Longrightarrow> GetPreimage E c p \<Longrightarrow> VerifyTxn E c t None None None None = Ok False"
  by (simp add: VerifyTxn_def)

section \<open>A concrete extension\<close>

definition demo_env_for :: "Txn \<Rightarrow> (bytes \<times> bytes) list env" where
  "demo_env_for t = demo_env\<lparr>encT := enc_at t, decT := dec_at t\<rparr>"

lemma env_ok_demo_env_for [simp]: "env_ok (demo_env_for t)"
  unfolding env_ok_def json_ok_def demo_env_for_def demo_env_def by (auto intro: exI [of _ map_of])

lemma demo_reliable [simp]: "ldb_reliable (eLdb demo_env)" "ldb_reliable (eLdb (demo_env_for t))"
  by (simp_all add: ldb_reliable_def demo_env_for_def demo_env_def alist_db_def)

lemma PostValidBlock_small:
  assumes "bhSeqNum h \<le> 2016" "bhDifficulty h = 16"
    and "\<forall>t \<in> set txns. VerifyTxn E c t None None None None = Ok True"
    and "VerifyCoinbaseTxn (eCurve E) cb (CoinbaseValue (bhSeqNum h) + sum_list (map (\<lambda>t. tbFee (txBody t)) txns)) = Ok True"
  shows "PostValidBlock E c \<lparr>bkHeader = h, bkTxns = cb # txns\<rparr> None None = Ok True"
  using assms VerifyTxns_main [OF assms(3)]
  by (simp add: PostValidBlock_def ValidDifficulty_def ComputeDifficulty_def DIFFICULTY_SPACING_def INITIAL_DIFFICULTY_def)

lemma demo_extension:
  obtains t p cb c' where "pimg_hash demo_env t = Ok p"
    "ExtendMainChain demo_env demo_header \<lparr>bkHeader = demo_header, bkTxns = [cb, t]\<rparr> demo_stored = (Ok True, c')"
proof -
  obtain t where t: "VerifyTxn demo_env demo_stored t None None None None = Ok True" "tbFee (txBody t) = 1"
    using demo_accepted [OF demo_amounts, of "[demo_rcpt, demo_rcpt]"] by auto
  obtain p where p: "pimg_hash demo_env t = Ok p" using t(1) by (auto simp: VerifyTxn_iff)
  obtain cb where cb: "VerifyCoinbaseTxn (eCurve demo_env) cb (CoinbaseValue 0 + 1) = Ok True"
    using NewCoinbaseTxn_exact [OF curve_ok_log_curve good_demo_rcpt, of "\<lambda>bs. 7" 0 1 3 "CoinbaseValue 0 + 1"] by auto
  let ?b = "\<lparr>bkHeader = demo_header, bkTxns = [cb, t]\<rparr>"
  have "PostValidBlock demo_env demo_stored ?b None None = Ok True"
    by (rule PostValidBlock_small) (use t cb in \<open>simp_all add: demo_header_def\<close>)
  from ExtendMainChain_total [OF demo_reliable(1) this, of demo_header] p that show thesis
    by (metis prod.collapse)
qed

section \<open>Properties\<close>

text \<open>
  C4: After a block has extended the main chain, none of its payments can be spent again: in every state the client
  reaches from there while its chain grows, any transaction with the preimage of one of them fails
  \<^verbatim>\<open>VerifyTxn\<close>, and no block that contains such a transaction passes \<^verbatim>\<open>PostValidBlock\<close>.
\<close>

theorem no_double_spend_across_blocks:
  assumes "env_ok E" "ExtendMainChain E h b c = (Ok True, c1)" "chain_grows E c1 c2"
    and "t \<in> set (tl (bkTxns b))" "pimg_hash E t = Ok p" "pimg_hash E t' = Ok p" "t' \<in> set (tl (bkTxns b'))"
  shows "VerifyTxn E c2 t' None None None None = Ok False \<and> PostValidBlock E c2 b' None None \<noteq> Ok True"
proof -
  have "GetPreimage E c1 p"
    using ExtendMainChain_effect [OF assms(1,2)] block_pimgs_mem [OF _ assms(4,5)] by blast
  then have "VerifyTxn E c2 t' None None None None = Ok False"
    using assms(3,6) by (intro VerifyTxn_spent) (auto simp: chain_grows_def)
  then show ?thesis using PostValidBlock_verified [OF _ assms(7)] by force
qed

theorem no_double_spend_across_blocks_witness:
  "\<exists>t b c1. ExtendMainChain demo_env demo_header b demo_stored = (Ok True, c1) \<and> t \<in> set (tl (bkTxns b))
    \<and> VerifyTxn demo_env c1 t None None None None = Ok False"
proof -
  obtain t p cb c1 where e: "pimg_hash demo_env t = Ok p"
    "ExtendMainChain demo_env demo_header \<lparr>bkHeader = demo_header, bkTxns = [cb, t]\<rparr> demo_stored = (Ok True, c1)"
    by (rule demo_extension)
  have "VerifyTxn demo_env c1 t None None None None = Ok False
    \<and> PostValidBlock demo_env c1 \<lparr>bkHeader = demo_header, bkTxns = [cb, t]\<rparr> None None \<noteq> Ok True"
    by (rule no_double_spend_across_blocks [OF env_ok_demo_env e(2) _ _ e(1) e(1)]) simp_all
  with e(2) show ?thesis by (intro exI conjI) auto
qed

text \<open>
  Extending the main chain records exactly the block: it becomes the head, its header and (at a full node) the block
  are read back under their hashes, every output and every later preimage of it leads to it, its preimages are
  marked as spent, and nothing else in those tables changes.
\<close>

lemma extend_main_chain_records:
  assumes "env_ok E" "ExtendMainChain E h b c = (Ok True, c')"
  shows "\<exists>ps ks. block_pimgs E 0 (bkTxns b) = Ok ps \<and> map_keys E 0 (bkTxns b) = Ok ks
    \<and> PostValidBlock E c b None None = Ok True \<and> LastHeader c' = h
    \<and> GetHeader E c' = (GetHeader E c)(header_hash E h := Ok (Some h))
    \<and> (cType c = BLOCKCHAIN_CLIENT \<longrightarrow> GetBlock E c' = (GetBlock E c)(header_hash E (bkHeader b) := Ok (Some b)))
    \<and> (\<forall>p. GetPreimage E c' p \<longleftrightarrow> p \<in> set ps \<or> GetPreimage E c p)
    \<and> (\<forall>k. MapToBlock E c' k = (if k \<in> set ks then Ok (header_hash E (bkHeader b)) else MapToBlock E c k))"
proof -
  from ExtendMainChain_effect [OF assms] obtain ps ks where eff: "block_pimgs E 0 (bkTxns b) = Ok ps"
    "map_keys E 0 (bkTxns b) = Ok ks" "PostValidBlock E c b None None = Ok True" "LastHeader c' = h"
    "\<forall>k. GetHeader E c' k = (if k = header_hash E h then Ok (Some h) else GetHeader E c k)"
    "\<forall>k. GetBlock E c' k = (if cType c = BLOCKCHAIN_CLIENT \<and> k = header_hash E (bkHeader b) then Ok (Some b) else GetBlock E c k)"
    "\<forall>p. GetPreimage E c' p \<longleftrightarrow> p \<in> set ps \<or> GetPreimage E c p"
    "\<forall>k. MapToBlock E c' k = (if k \<in> set ks then Ok (header_hash E (bkHeader b)) else MapToBlock E c k)"
    by blast
  then show ?thesis by (intro exI [of _ ps] exI [of _ ks] conjI impI ext) simp_all
qed

lemma extend_main_chain_records_witness:
  "\<exists>b c'. ExtendMainChain demo_env demo_header b demo_stored = (Ok True, c') \<and> length (bkTxns b) = 2
    \<and> LastHeader c' = demo_header \<and> GetBlock demo_env c' 7 = Ok (Some b)"
proof -
  obtain t p cb c1 where e: "pimg_hash demo_env t = Ok p"
    "ExtendMainChain demo_env demo_header \<lparr>bkHeader = demo_header, bkTxns = [cb, t]\<rparr> demo_stored = (Ok True, c1)"
    by (rule demo_extension)
  from extend_main_chain_records [OF env_ok_demo_env e(2)]
  have "LastHeader c1 = demo_header" "GetBlock demo_env c1 7 = Ok (Some \<lparr>bkHeader = demo_header, bkTxns = [cb, t]\<rparr>)"
    by (auto simp: BlockHeader_Hash_def)
  with e(2) show ?thesis by (intro exI conjI) auto
qed

text \<open>
  A confirmed transaction is not removed from the pool: extending the main chain clears pool entries under the
  hashes of preimages, while the pool is keyed by the hashes of transactions, so an entry whose hash is not
  also the hash of a preimage of the block stays as it was.
\<close>

lemma pool_not_cleaned:
  assumes "env_ok E" "ExtendMainChain E h b c = (Ok True, c')" "block_pimgs E 0 (bkTxns b) = Ok ps" "Txn_Hash E t \<notin> set ps"
  shows "GetTxnPool E c' (Txn_Hash E t) = GetTxnPool E c (Txn_Hash E t)"
  using ExtendMainChain_effect [OF assms(1,2)] assms(3,4) by auto

lemma demo_coinbase_block:
  obtains cb c' where "ValidCoinbaseTxn (enc_at cb) cb"
    "VerifyCoinbaseTxn (eCurve (demo_env_for cb)) cb (CoinbaseValue 0) = Ok True"
proof -
  obtain cb where cb: "NewCoinbaseTxn (\<lambda>bs. 7) log_curve demo_rcpt 0 0 3 = Ok cb"
      "VerifyCoinbaseTxn log_curve cb (CoinbaseValue 0) = Ok True"
    using NewCoinbaseTxn_exact [OF curve_ok_log_curve good_demo_rcpt, of "\<lambda>bs. 7" 0 0 3 "CoinbaseValue 0"] by auto
  then have "ValidCoinbaseTxn (enc_at cb) cb = (length (enc_at cb cb) < MAX_BLOCK_SIZE)"
    using NewCoinbaseTxn_exact [OF curve_ok_log_curve good_demo_rcpt, of "\<lambda>bs. 7" 0 0 3 "CoinbaseValue 0" "enc_at cb"] by auto
  with cb(2) that show thesis by (simp add: enc_at_def MAX_BLOCK_SIZE_def demo_env_for_def demo_env_def)
qed

lemma pool_not_cleaned_witness:
  "\<exists>b c'. ExtendMainChain demo_env demo_header b demo_stored = (Ok True, c') \<and>
    GetTxnPool demo_env c' (Txn_Hash demo_env demo_coinbase) = GetTxnPool demo_env demo_stored (Txn_Hash demo_env demo_coinbase)"
proof -
  obtain cb where cb: "VerifyCoinbaseTxn (eCurve demo_env) cb (CoinbaseValue 0) = Ok True"
    using NewCoinbaseTxn_exact [OF curve_ok_log_curve good_demo_rcpt, of "\<lambda>bs. 7" 0 0 3 "CoinbaseValue 0"] by auto
  let ?b = "\<lparr>bkHeader = demo_header, bkTxns = [cb]\<rparr>"
  have "PostValidBlock demo_env demo_stored ?b None None = Ok True"
    by (rule PostValidBlock_small) (use cb in \<open>simp_all add: demo_header_def\<close>)
  from ExtendMainChain_total [OF demo_reliable(1) this, of demo_header]
  obtain c' where c': "ExtendMainChain demo_env demo_header ?b demo_stored = (Ok True, c')" by (metis prod.collapse)
  have "GetTxnPool demo_env c' (Txn_Hash demo_env demo_coinbase) = GetTxnPool demo_env demo_stored (Txn_Hash demo_env demo_coinbase)"
    by (rule pool_not_cleaned [OF env_ok_demo_env c', of "[]"]) simp_all
  with c' show ?thesis by blast
qed

text \<open>
  C33: The main chain is never reorganised: extending a side chain always ends in an error and changes nothing, so a valid
  block whose parent is on the main chain but is not its head is refused, whatever its difficulty.
\<close>

theorem reorganisation_never_happens:
  assumes "env_ok E" "LoadOrFetchBlock E c req = Ok bk" "bhPrevHash (bkHeader bk) \<notin> {0, header_hash E (LastHeader c)}"
    and "GetHeader E c (bhPrevHash (bkHeader bk)) = Ok hd1"
  shows "ExtendSideChain E h b c' \<in> {Some (Err ErrNotFound, c'), Some (Err ErrUnmarshal, c')}
    \<and> (\<exists>r. AddOrOrphanHelper E req c = Some (r, c) \<and> r \<noteq> Ok True)"
proof -
  have "\<exists>r. AddOrOrphanHelper E req c = Some (r, c) \<and> r \<noteq> Ok True"
    using assms ExtendSideChain_fails [OF assms(1), of "bkHeader bk" bk c]
    by (subst AddOrOrphanHelper.simps) (auto split: res.splits)
  with ExtendSideChain_fails [OF assms(1)] show ?thesis by blast
qed

theorem reorganisation_never_happens_witness:
  "\<exists>c r. AddOrOrphanHelper demo_env \<lparr>hmAddress = [], hmHash = 7\<rparr> c = Some (r, c) \<and> r \<noteq> Ok True"
proof -
  let ?b = "\<lparr>bkHeader = demo_header\<lparr>bhPrevHash := 5\<rparr>, bkTxns = [demo_coinbase]\<rparr>"
  let ?c = "demo_stored\<lparr>dbm := (dbm demo_stored)\<lparr>headerDB := [(sum_bytes 5, codec_enc demo_header)],
    blockDB := [(sum_bytes 7, codec_enc ?b)]\<rparr>\<rparr>"
  have "LoadOrFetchBlock demo_env ?c \<lparr>hmAddress = [], hmHash = 7\<rparr> = Ok ?b" "GetHeader demo_env ?c 5 = Ok (Some demo_header)"
    by (simp_all add: LoadOrFetchBlock_def LoadBlock_def GetBlock_def GetHeader_def db_get_def demo_env_def alist_db_def
        of_sum_def slice_def demo_stored_def demo_client_def)
  then show ?thesis
    using reorganisation_never_happens [OF env_ok_demo_env, of ?c "\<lparr>hmAddress = [], hmHash = 7\<rparr>" ?b "Some demo_header"
        demo_header demo_block ?c]
    by (intro exI [of _ ?c]) (simp add: BlockHeader_Hash_def)
qed

text \<open>
  C34: A valid block without a parent hash becomes the head of the main chain at any time, whatever the current head and its
  height: only a zero parent is asked for, not height zero or a heavier chain.
\<close>

theorem zero_parent_replaces_head:
  assumes "LoadOrFetchBlock E c req = Ok b" "prechecked E b = Ok True" "bhPrevHash (bkHeader b) = 0"
    and "PostValidBlock E c b None None = Ok True" "ldb_reliable (eLdb E)"
  shows "\<exists>c'. AddOrOrphanHelper E req c = Some (Ok True, c') \<and> LastHeader c' = bkHeader b"
proof -
  obtain c' where c': "ExtendMainChain E (bkHeader b) b c = (Ok True, c')"
    using ExtendMainChain_total [OF assms(5,4)] by (metis prod.collapse)
  then have "LastHeader c' = bkHeader b" using ExtendMainChain_Ok by blast
  with c' assms(1-3) show ?thesis by (subst AddOrOrphanHelper.simps) simp
qed

theorem zero_parent_replaces_head_witness:
  "\<exists>E c c' req. LastHeader (c :: (bytes \<times> bytes) list Client) = demo_header\<lparr>bhSeqNum := 9\<rparr>
     \<and> AddOrOrphanHelper E req c = Some (Ok True, c') \<and> LastHeader c' = demo_header"
proof -
  obtain cb where cb: "ValidCoinbaseTxn (enc_at cb) cb" "VerifyCoinbaseTxn (eCurve (demo_env_for cb)) cb (CoinbaseValue 0) = Ok True"
    by (rule demo_coinbase_block)
  let ?E = "demo_env_for cb" and ?b = "\<lparr>bkHeader = demo_header, bkTxns = [cb]\<rparr>"
  let ?c = "demo_stored\<lparr>LastHeader := demo_header\<lparr>bhSeqNum := 9\<rparr>, dbm := (dbm demo_stored)\<lparr>blockDB := [(sum_bytes 7, codec_enc ?b)]\<rparr>\<rparr>"
  have "LoadOrFetchBlock ?E ?c \<lparr>hmAddress = [], hmHash = 7\<rparr> = Ok ?b"
    by (simp add: LoadOrFetchBlock_def LoadBlock_def GetBlock_def db_get_def demo_env_for_def demo_env_def alist_db_def
        of_sum_def slice_def demo_stored_def demo_client_def)
  moreover have "prechecked ?E ?b = Ok True"
    using cb(1) by (simp add: prechecked_def ValidHeader_def ValidPoW_eq demo_env_for_def demo_env_def demo_header_def
        time_Before_def time_Add_def Hour_def PrevalidBlock_def ValidTxns_Cons VerifyMerkleHash_def MerkleHash_eq)
  moreover have "PostValidBlock ?E ?c ?b None None = Ok True"
    by (rule PostValidBlock_small) (use cb(2) in \<open>simp_all add: demo_header_def\<close>)
  ultimately have "\<exists>c'. AddOrOrphanHelper ?E \<lparr>hmAddress = [], hmHash = 7\<rparr> ?c = Some (Ok True, c') \<and> LastHeader c' = bkHeader ?b"
    by (intro zero_parent_replaces_head) (simp_all add: demo_header_def)
  then obtain c' where "AddOrOrphanHelper ?E \<lparr>hmAddress = [], hmHash = 7\<rparr> ?c = Some (Ok True, c')" "LastHeader c' = demo_header"
    by auto
  then show ?thesis
    by (intro exI [of _ ?E] exI [of _ ?c] exI [of _ c'] exI [of _ "\<lparr>hmAddress = [], hmHash = 7\<rparr>"]) simp
qed

text \<open>The peers stay the same.\<close>

definition same_peers :: "'d env \<Rightarrow> 'd Client \<Rightarrow> 'd Client \<Rightarrow> bool" where
  "same_peers E c c' \<longleftrightarrow> peerDB (dbm c') = peerDB (dbm c)"

interpretation peers_order: state_order same_peers
  by unfold_locales (simp_all add: same_peers_def)

lemma peer_frames:
  "peerDB (dbm (snd (PutHeader E h c))) = peerDB (dbm c)" "peerDB (dbm (snd (PutBlock E b c))) = peerDB (dbm c)"
  "peerDB (dbm (snd (write_pimgs E ps c))) = peerDB (dbm c)" "peerDB (dbm (snd (clear_pool E ps c))) = peerDB (dbm c)"
  "peerDB (dbm (snd (PutMapToBlock E b c))) = peerDB (dbm c)" "peerDB (dbm (snd (spawn_go g c))) = peerDB (dbm c)"
  by (simp_all add: PutBlock_def write_pimgs_def clear_pool_def PutMapToBlock_def PutHeader_def spawn_go_def Let_def
      go_bind_read split: res.splits)

lemma keeps_peers_writes:
  "keeps (same_peers E) (PutHeader E h)" "keeps (same_peers E) (PutBlock E b)" "keeps (same_peers E) (write_pimgs E ps)"
  "keeps (same_peers E) (PutMapToBlock E b)" "keeps (same_peers E) (clear_pool E ps)" "keeps (same_peers E) (spawn_go g)"
  "keeps (same_peers E) (go_modify (\<lambda>c. c\<lparr>LastHeader := h\<rparr>))"
  by (simp_all add: keeps_def same_peers_def peer_frames)

lemma keeps_peers_WriteBlock: "keeps (same_peers E) (WriteBlock E b)"
  unfolding WriteBlock_def by (intro peers_order.keeps_intros keeps_peers_writes)

lemma keeps_peers_ExtendMainChain: "keeps (same_peers E) (ExtendMainChain E h b)"
  unfolding ExtendMainChain_def by (auto intro!: peers_order.keeps_intros keeps_peers_writes keeps_peers_WriteBlock)

lemma peers_ExtendMainChain: "ExtendMainChain E h b c = (r, c') \<Longrightarrow> peers E c' = peers E c"
  using keeps_peers_ExtendMainChain [of E h b] unfolding keeps_def same_peers_def peers_def by (metis snd_conv)

lemma ComputeDifficulty_nonce:
  "ComputeDifficulty E c (b\<lparr>bkHeader := (bkHeader b)\<lparr>bhNonce := n\<rparr>\<rparr>) = ComputeDifficulty E c b"
  by (simp add: ComputeDifficulty_def)

lemma VerifyTxns_nonce:
  "VerifyTxns E c (b\<lparr>bkHeader := (bkHeader b)\<lparr>bhNonce := n\<rparr>\<rparr>) m s = VerifyTxns E c b m s"
  by (cases m; cases s) (simp_all add: VerifyTxns_def cong: if_cong)

lemma PostValidBlock_nonce:
  "PostValidBlock E c (b\<lparr>bkHeader := (bkHeader b)\<lparr>bhNonce := n\<rparr>\<rparr>) m s = PostValidBlock E c b m s"
  by (simp add: PostValidBlock_def ValidDifficulty_def ComputeDifficulty_nonce VerifyTxns_nonce cong: if_cong)

lemma PrevalidBlock_nonce:
  "PrevalidBlock hs enc (b\<lparr>bkHeader := (bkHeader b)\<lparr>bhNonce := n\<rparr>\<rparr>) = PrevalidBlock hs enc b"
  by (simp add: PrevalidBlock_def VerifyMerkleHash_def MerkleHash_eq)

lemma NewBlock_parent: "NewBlock E c prev address now r = Ok b \<Longrightarrow> bhPrevHash (bkHeader b) = header_hash E prev"
  by (auto simp: NewBlock_def Let_def res_bind_eq_Ok)

lemma bcast_ok_state: "snd (go_try (bcast E m x) go_ret (\<lambda>e. go_ret ()) c) = snd (bcast E m x c)"
  by (simp add: go_try_apply bcast_def iter_result_def split: option.splits)

lemma AdoptMinedBlock_adopts:
  assumes "curve_ok (eCurve E)" "good_rcpt (eCurve E) address" "ldb_reliable (eLdb E)"
    and "NewBlock E c (LastHeader c) address now r = Ok b0" "b = b0\<lparr>bkHeader := (bkHeader b0)\<lparr>bhNonce := n\<rparr>\<rparr>"
    and "ValidHeader (eHash E) (encH E) (eNow E) (bkHeader b) = Ok True" "length (encT E (hd (bkTxns b))) < MAX_BLOCK_SIZE"
  shows "\<exists>c'. ExtendMainChain E (bkHeader b) b c = (Ok True, c') \<and> LastHeader c' = bkHeader b
    \<and> AdoptMinedBlock E b c = go_try (BcastBlock E (header_hash E (bkHeader b))) go_ret (\<lambda>e. go_ret ()) c'"
proof -
  have acc: "PostValidBlock E c b None None = Ok True" "PrevalidBlock (eHash E) (encT E) b"
    using NewBlock_accepted [OF assms(1,2,4)] assms(5,7) by (simp_all add: PostValidBlock_nonce PrevalidBlock_nonce)
  obtain c' where c': "ExtendMainChain E (bkHeader b) b c = (Ok True, c')"
    using ExtendMainChain_total [OF assms(3) acc(1)] by (metis prod.collapse)
  moreover have "AdoptMinedBlock E b c = go_try (BcastBlock E (header_hash E (bkHeader b))) go_ret (\<lambda>e. go_ret ()) c'"
    using NewBlock_parent [OF assms(4)] assms(5,6) acc(2) c'
    by (simp add: AdoptMinedBlock_def prechecked_def go_bind_read go_try_apply)
  moreover have "LastHeader c' = bkHeader b" using ExtendMainChain_Ok [OF c'] by blast
  ultimately show ?thesis by blast
qed

text \<open>A block made on the demonstration chain, in an environment in which its coinbase is small.\<close>

lemma demo_mined:
  obtains cb b0 where "NewBlock (demo_env_for cb) demo_stored (LastHeader demo_stored) demo_rcpt \<lparr>tmNano = 0, tmZone = 0\<rparr> 3 = Ok b0"
    "bhSeqNum (bkHeader b0) = 1" "curve_ok (eCurve (demo_env_for cb))" "good_rcpt (eCurve (demo_env_for cb)) demo_rcpt"
    "ValidHeader (eHash (demo_env_for cb)) (encH (demo_env_for cb)) (eNow (demo_env_for cb)) ((bkHeader b0)\<lparr>bhNonce := 4\<rparr>) = Ok True"
    "length (encT (demo_env_for cb) (hd (bkTxns b0))) < MAX_BLOCK_SIZE"
proof -
  obtain cb where cb: "NewCoinbaseTxn (\<lambda>bs. 7) log_curve demo_rcpt 1 0 3 = Ok cb"
    using NewCoinbaseTxn_good [OF good_demo_rcpt] by blast
  let ?E = "demo_env_for cb" and ?now = "\<lparr>tmNano = 0, tmZone = 0\<rparr>"
  have "TxnsFromPool ?E demo_stored = Ok []"
    by (simp add: TxnsFromPool_def demo_env_for_def demo_env_def alist_db_def demo_stored_def demo_client_def)
  moreover have hash: "eHash ?E = (\<lambda>bs. 7)" "eCurve ?E = log_curve" "encT ?E = enc_at cb" "eNow ?E = ?now"
    by (simp_all add: demo_env_for_def demo_env_def)
  ultimately obtain b0 where b0: "NewBlock ?E demo_stored (LastHeader demo_stored) demo_rcpt ?now 3 = Ok b0"
    "bkTxns b0 = [cb]" "bhSeqNum (bkHeader b0) = 1" "bhDifficulty (bkHeader b0) = 16" "bhTime (bkHeader b0) = ?now"
    using cb by (simp add: NewBlock_def Let_def ComputeDifficulty_def demo_header_def DIFFICULTY_SPACING_def INITIAL_DIFFICULTY_def)
  have "curve_ok (eCurve ?E)" "good_rcpt (eCurve ?E) demo_rcpt" using good_demo_rcpt by (simp_all add: hash)
  moreover have "ValidHeader (eHash ?E) (encH ?E) (eNow ?E) ((bkHeader b0)\<lparr>bhNonce := 4\<rparr>) = Ok True"
    by (simp add: ValidHeader_def ValidPoW_eq hash b0 time_Before_def time_Add_def Hour_def)
  moreover have "length (encT ?E (hd (bkTxns b0))) < MAX_BLOCK_SIZE"
    by (simp add: hash b0 enc_at_def MAX_BLOCK_SIZE_def)
  ultimately show thesis using that [OF b0(1,3)] by blast
qed

text \<open>
  C14: A mined block is adopted: if a block made by \<^verbatim>\<open>NewBlock\<close> on the current head is given a nonce that
  makes its header valid, its coinbase is not too large and the databases accept the writes, then
  \<^verbatim>\<open>AdoptMinedBlock\<close> makes it the head and announces it to every peer.
\<close>

theorem mined_block_adopted:
  assumes "curve_ok (eCurve E)" "good_rcpt (eCurve E) address" "ldb_reliable (eLdb E)"
    and "NewBlock E c (LastHeader c) address now r = Ok b0" "b = b0\<lparr>bkHeader := (bkHeader b0)\<lparr>bhNonce := n\<rparr>\<rparr>"
    and "ValidHeader (eHash E) (encH E) (eNow E) (bkHeader b) = Ok True" "length (encT E (hd (bkTxns b))) < MAX_BLOCK_SIZE"
  shows "LastHeader (snd (AdoptMinedBlock E b c)) = bkHeader b
    \<and> set (map (\<lambda>a. SendBcast BcastBlockRPC a (header_hash E (bkHeader b))) (peers E c)) \<subseteq> set (spawned (snd (AdoptMinedBlock E b c)))"
proof -
  from AdoptMinedBlock_adopts [OF assms] obtain c' where c': "ExtendMainChain E (bkHeader b) b c = (Ok True, c')"
    "LastHeader c' = bkHeader b" "AdoptMinedBlock E b c = go_try (BcastBlock E (header_hash E (bkHeader b))) go_ret (\<lambda>e. go_ret ()) c'"
    by blast
  moreover have "peers E c' = peers E c" by (rule peers_ExtendMainChain [OF c'(1)])
  ultimately show ?thesis
    by (simp add: BcastBlock_def bcast_ok_state) (simp add: bcast_def)
qed

theorem mined_block_adopted_witness:
  "\<exists>E b. bhSeqNum (bkHeader b) = 1 \<and> LastHeader (snd (AdoptMinedBlock E b demo_stored)) = bkHeader b"
proof -
  obtain cb b0 where m: "NewBlock (demo_env_for cb) demo_stored (LastHeader demo_stored) demo_rcpt \<lparr>tmNano = 0, tmZone = 0\<rparr> 3 = Ok b0"
    "bhSeqNum (bkHeader b0) = 1" "curve_ok (eCurve (demo_env_for cb))" "good_rcpt (eCurve (demo_env_for cb)) demo_rcpt"
    "ValidHeader (eHash (demo_env_for cb)) (encH (demo_env_for cb)) (eNow (demo_env_for cb)) ((bkHeader b0)\<lparr>bhNonce := 4\<rparr>) = Ok True"
    "length (encT (demo_env_for cb) (hd (bkTxns b0))) < MAX_BLOCK_SIZE"
    by (rule demo_mined)
  let ?b = "b0\<lparr>bkHeader := (bkHeader b0)\<lparr>bhNonce := 4\<rparr>\<rparr>"
  have "LastHeader (snd (AdoptMinedBlock (demo_env_for cb) ?b demo_stored)) = bkHeader ?b"
    using mined_block_adopted [OF m(3,4) demo_reliable(2) m(1) refl] m(5,6) by simp
  then show ?thesis using m(2) by (intro exI [of _ "demo_env_for cb"] exI [of _ ?b]) simp
qed

end
