(* ===== verification/ClientLoop.thy ===== *)
theory ClientLoop
  imports Consensus
begin

text \<open>
  \<^verbatim>\<open>client.go\<close>: opening the databases, making a client, and its \<^verbatim>\<open>run\<close> loop as a
  step relation.  The loop and the goroutines it starts communicate over unbuffered channels; a goroutine that
  offers a start signal, one that waits for it, one that has it, and one that offers its completion are the four
  places a task can be in.
\<close>

section \<open>Making a client\<close>

text \<open>\<^verbatim>\<open>leveldb.OpenFile\<close> is the argument \<open>openf\<close>; every opening function panics when it fails.\<close>

definition open_db :: "(string \<Rightarrow> gerr + 'd) \<Rightarrow> string \<Rightarrow> 'd res" where
  "open_db openf path = (case openf path of Inl e \<Rightarrow> Panic | Inr d \<Rightarrow> Ok d)"

definition OpenHeaderDB :: "(string \<Rightarrow> gerr + 'd) \<Rightarrow> 'd res" where
  "OpenHeaderDB openf = open_db openf ''db/header.db''"

definition OpenSideHeaderDB :: "(string \<Rightarrow> gerr + 'd) \<Rightarrow> 'd res" where
  "OpenSideHeaderDB openf = open_db openf ''db/side-header.db''"

definition OpenOrphanHeaderDB :: "(string \<Rightarrow> gerr + 'd) \<Rightarrow> 'd res" where
  "OpenOrphanHeaderDB openf = open_db openf ''db/orphan-header.db''"

definition OpenBlockDB :: "(string \<Rightarrow> gerr + 'd) \<Rightarrow> 'd res" where
  "OpenBlockDB openf = open_db openf ''db/block.db''"

definition OpenSideBlockDB :: "(string \<Rightarrow> gerr + 'd) \<Rightarrow> 'd res" where
  "OpenSideBlockDB openf = open_db openf ''db/side-block.db''"

definition OpenOrphanBlockDB :: "(string \<Rightarrow> gerr + 'd) \<Rightarrow> 'd res" where
  "OpenOrphanBlockDB openf = open_db openf ''db/orphan-block.db''"

definition OpenMapDB :: "(string \<Rightarrow> gerr + 'd) \<Rightarrow> 'd res" where
  "OpenMapDB openf = open_db openf ''db/map.db''"

definition OpenPreimageDB :: "(string \<Rightarrow> gerr + 'd) \<Rightarrow> 'd res" where
  "OpenPreimageDB openf = open_db openf ''db/pimg.db''"

definition OpenPeerDB :: "(string \<Rightarrow> gerr + 'd) \<Rightarrow> 'd res" where
  "OpenPeerDB openf = open_db openf ''db/peer.db''"

definition OpenTxnPoolDB :: "(string \<Rightarrow> gerr + 'd) \<Rightarrow> 'd res" where
  "OpenTxnPoolDB openf = open_db openf ''db/txn-pool.db''"

definition OpenConnections :: "(string \<Rightarrow> gerr + 'd) \<Rightarrow> 'd DBManager res" where
  "OpenConnections openf =
     res_bind (OpenHeaderDB openf) (\<lambda>h.
     res_bind (OpenSideHeaderDB openf) (\<lambda>sh.
     res_bind (OpenOrphanHeaderDB openf) (\<lambda>oh.
     res_bind (OpenBlockDB openf) (\<lambda>b.
     res_bind (OpenSideBlockDB openf) (\<lambda>sb.
     res_bind (OpenOrphanBlockDB openf) (\<lambda>ob.
     res_bind (OpenMapDB openf) (\<lambda>m.
     res_bind (OpenPreimageDB openf) (\<lambda>p.
     res_bind (OpenPeerDB openf) (\<lambda>pe.
     res_bind (OpenTxnPoolDB openf) (\<lambda>t.
       Ok \<lparr>headerDB = h, sideHeaderDB = sh, orphanHeaderDB = oh, blockDB = b, sideBlockDB = sb, orphanBlockDB = ob,
           mapDB = m, pimgDB = p, peerDB = pe, txnPoolDB = t\<rparr>))))))))))"

text \<open>\<open>listen\<close> is the error of \<^verbatim>\<open>net.Listen\<close> on the client's address.\<close>

definition newClient :: "(string \<Rightarrow> gerr + 'd) \<Rightarrow> (bytes \<Rightarrow> gerr option) \<Rightarrow> ClientType \<Rightarrow> bytes \<Rightarrow> bool \<Rightarrow> 'd Client res" where
  "newClient openf listen t clientAddress updateWallet =
     res_bind (OpenConnections openf) (\<lambda>dbm.
       case listen clientAddress of
         Some e \<Rightarrow> Panic
       | None \<Rightarrow> Ok \<lparr>cType = t, LastHeader = zero_header, UpdateWallet = updateWallet, cAddress = clientAddress,
                     dbm = dbm, spawned = []\<rparr>)"

definition NewBlockchain :: "(string \<Rightarrow> gerr + 'd) \<Rightarrow> (bytes \<Rightarrow> gerr option) \<Rightarrow> bytes \<Rightarrow> 'd Client res" where
  "NewBlockchain openf listen clientAddress = newClient openf listen BLOCKCHAIN_CLIENT clientAddress False"

definition NewSPV :: "(string \<Rightarrow> gerr + 'd) \<Rightarrow> (bytes \<Rightarrow> gerr option) \<Rightarrow> bytes \<Rightarrow> 'd Client res" where
  "NewSPV openf listen clientAddress = newClient openf listen SVP_CLIENT clientAddress True"

section \<open>Tasks\<close>

datatype task = TBlock HashMsg | TTxn HashMsg | TMined Block | TAdopt Txn

text \<open>The hash a task sends on \<open>doneChan\<close> when it is complete.\<close>

fun task_hash :: "'d env \<Rightarrow> task \<Rightarrow> SHA256Sum" where
  "task_hash E (TBlock req) = hmHash req"
| "task_hash E (TTxn req) = hmHash req"
| "task_hash E (TMined block) = header_hash E (bkHeader block)"
| "task_hash E (TAdopt txn) = Txn_Hash E txn"

fun run_task :: "'d env \<Rightarrow> task \<Rightarrow> 'd Client \<Rightarrow> (unit res \<times> 'd Client) option" where
  "run_task E (TBlock req) c = AddOrOrphan E req c"
| "run_task E (TTxn req) c = Some (AddToTxnPool E req c)"
| "run_task E (TMined block) c = Some (AdoptMinedBlock E block c)"
| "run_task E (TAdopt txn) c = Some (AdoptTxn E txn c)"

section \<open>Requests of peers\<close>

text \<open>
  The requests a node serves, each in a goroutine of its own.  What the handler answers goes to the peer; whether it
  returns, errs or panics, and the client it leaves, concern the node.
\<close>

datatype rpc =
    CallBcastBlock HashMsg
  | CallBcastTxn HashMsg
  | CallFetchHeader HashMsg
  | CallFetchBlock HashMsg
  | CallFetchTxn HashMsg
  | CallFetchOutput HashMsg

definition unanswered :: "('s, 'a) go \<Rightarrow> ('s, unit) go" where
  "unanswered m = go_bind m (\<lambda>a. go_ret ())"

fun serve_rpc :: "'d env \<Rightarrow> rpc \<Rightarrow> ('d Client, unit) go" where
  "serve_rpc E (CallBcastBlock req) = unanswered (BcastBlockRPC_handler E req)"
| "serve_rpc E (CallBcastTxn req) = unanswered (BcastTxnRPC_handler E req)"
| "serve_rpc E (CallFetchHeader req) = unanswered (FetchHeaderRPC E req)"
| "serve_rpc E (CallFetchBlock req) = unanswered (FetchBlockRPC E req)"
| "serve_rpc E (CallFetchTxn req) = unanswered (FetchTxnRPC E req)"
| "serve_rpc E (CallFetchOutput req) = unanswered (FetchOutputRPC E req)"

fun rpc_address :: "rpc \<Rightarrow> bytes" where
  "rpc_address (CallBcastBlock req) = hmAddress req"
| "rpc_address (CallBcastTxn req) = hmAddress req"
| "rpc_address (CallFetchHeader req) = hmAddress req"
| "rpc_address (CallFetchBlock req) = hmAddress req"
| "rpc_address (CallFetchTxn req) = hmAddress req"
| "rpc_address (CallFetchOutput req) = hmAddress req"

text \<open>Every handler begins with \<^verbatim>\<open>HandleRPC\<close> and only reads after it.\<close>

lemma serve_rpc_state: "snd (serve_rpc E q c) = snd (PutPeer E (rpc_address q) c)"
  by (cases q) (auto simp: unanswered_def BcastBlockRPC_handler_def BcastTxnRPC_handler_def announce_def FetchHeaderRPC_def
      FetchBlockRPC_def FetchTxnRPC_def FetchOutputRPC_def HandleRPC_def go_bind_apply split: prod.splits res.splits)

section \<open>The loop\<close>

record 'd loop =
  lpClient :: "'d Client"
  frontier :: "SHA256Sum set"
  starters :: nat
  waiting :: "task list"
  executing :: "task list"
  finished :: "SHA256Sum list"
  crashed :: bool

definition loop_init :: "'d Client \<Rightarrow> 'd loop" where
  "loop_init c = \<lparr>lpClient = c, frontier = {}, starters = 1, waiting = [], executing = [], finished = [], crashed = False\<rparr>"

text \<open>
  One step, in an environment of its own: what peers answer and the time differ from step to step.  A case of the
  select, a task that gets the start signal, a task that runs and completes or panics, a request that is served or
  panics (\<^verbatim>\<open>net/rpc\<close> does not recover), or a broadcast.
\<close>

inductive loop_step :: "'d env \<Rightarrow> 'd loop \<Rightarrow> 'd loop \<Rightarrow> bool" for E where
  known_block: "\<not> crashed s \<Longrightarrow> hmHash req \<in> frontier s \<or> FilterBlock E (lpClient s) req = Ok () \<Longrightarrow> loop_step E s s"
| known_txn: "\<not> crashed s \<Longrightarrow> hmHash req \<in> frontier s \<or> FilterTxn E (lpClient s) req = Ok () \<Longrightarrow> loop_step E s s"
| block_hash: "\<not> crashed s \<Longrightarrow> hmHash req \<notin> frontier s \<Longrightarrow> FilterBlock E (lpClient s) req = Err e
    \<Longrightarrow> loop_step E s (s\<lparr>frontier := insert (hmHash req) (frontier s), waiting := waiting s @ [TBlock req]\<rparr>)"
| txn_hash: "\<not> crashed s \<Longrightarrow> hmHash req \<notin> frontier s \<Longrightarrow> FilterTxn E (lpClient s) req = Err e
    \<Longrightarrow> loop_step E s (s\<lparr>frontier := insert (hmHash req) (frontier s), waiting := waiting s @ [TTxn req]\<rparr>)"
| new_block: "\<not> crashed s
    \<Longrightarrow> loop_step E s (s\<lparr>frontier := insert (header_hash E (bkHeader b)) (frontier s), waiting := waiting s @ [TMined b]\<rparr>)"
| new_txn: "\<not> crashed s
    \<Longrightarrow> loop_step E s (s\<lparr>frontier := insert (Txn_Hash E t) (frontier s), waiting := waiting s @ [TAdopt t]\<rparr>)"
| done_signal: "\<not> crashed s \<Longrightarrow> h \<in> set (finished s)
    \<Longrightarrow> loop_step E s (s\<lparr>frontier := frontier s - {h}, finished := remove1 h (finished s), starters := Suc (starters s)\<rparr>)"
| start_signal: "\<not> crashed s \<Longrightarrow> starters s = Suc n \<Longrightarrow> task \<in> set (waiting s)
    \<Longrightarrow> loop_step E s (s\<lparr>starters := n, waiting := remove1 task (waiting s), executing := executing s @ [task]\<rparr>)"
| complete: "\<not> crashed s \<Longrightarrow> task \<in> set (executing s) \<Longrightarrow> run_task E task (lpClient s) = Some (r, c) \<Longrightarrow> r \<noteq> Panic
    \<Longrightarrow> loop_step E s (s\<lparr>lpClient := c, executing := remove1 task (executing s), finished := finished s @ [task_hash E task]\<rparr>)"
| panic: "\<not> crashed s \<Longrightarrow> task \<in> set (executing s) \<Longrightarrow> run_task E task (lpClient s) = Some (Panic, c)
    \<Longrightarrow> loop_step E s (s\<lparr>lpClient := c, crashed := True\<rparr>)"
| serve: "\<not> crashed s \<Longrightarrow> serve_rpc E q (lpClient s) = (r, c) \<Longrightarrow> r \<noteq> Panic \<Longrightarrow> loop_step E s (s\<lparr>lpClient := c\<rparr>)"
| serve_panic: "\<not> crashed s \<Longrightarrow> serve_rpc E q (lpClient s) = (Panic, c)
    \<Longrightarrow> loop_step E s (s\<lparr>lpClient := c, crashed := True\<rparr>)"
| broadcast: "\<not> crashed s \<Longrightarrow> SendBcast m address h \<in> set (spawned (lpClient s))
    \<Longrightarrow> loop_step E s (s\<lparr>lpClient := snd (sendBcast E address (lpClient s))\<rparr>)"

inductive_cases loop_stepE: "loop_step E s s'"

text \<open>Environments with the same codecs and databases, which differ in peers and time.\<close>

definition env_like :: "'d env \<Rightarrow> 'd env \<Rightarrow> bool" where
  "env_like E E' \<longleftrightarrow> eHash E' = eHash E \<and> eCurve E' = eCurve E \<and> eLdb E' = eLdb E \<and> encH E' = encH E \<and> encBk E' = encBk E
     \<and> encT E' = encT E \<and> encB E' = encB E \<and> encO E' = encO E \<and> decH E' = decH E \<and> decBk E' = decBk E \<and> decT E' = decT E"

text \<open>A run: finitely many steps in environments like \<open>E\<close>.\<close>

inductive loop_run :: "'d env \<Rightarrow> 'd loop \<Rightarrow> 'd loop \<Rightarrow> bool" for E where
  run_refl: "loop_run E s s"
| run_step: "loop_run E s t \<Longrightarrow> env_like E E' \<Longrightarrow> loop_step E' t u \<Longrightarrow> loop_run E s u"

section \<open>Mutual exclusion\<close>

definition one_task :: "'d loop \<Rightarrow> bool" where
  "one_task s \<longleftrightarrow> crashed s \<or> starters s + length (executing s) + length (finished s) = 1"

lemma one_task_init: "one_task (loop_init c)"
  by (simp add: one_task_def loop_init_def)

lemma one_task_step: "loop_step E s t \<Longrightarrow> one_task s \<Longrightarrow> one_task t"
  by (erule loop_stepE) (auto simp: one_task_def length_remove1 dest!: split_list)

lemma one_task_run: "loop_run E s t \<Longrightarrow> one_task s \<Longrightarrow> one_task t"
  by (induction rule: loop_run.induct) (auto intro: one_task_step)

section \<open>The chain only grows\<close>

lemma env_like_reads:
  assumes "env_like E E'"
  shows "GetHeader E' = GetHeader E" "GetBlock E' = GetBlock E" "GetPreimage E' = GetPreimage E"
proof -
  have E: "eLdb E' = eLdb E" "decH E' = decH E" "decBk E' = decBk E" using assms by (simp_all add: env_like_def)
  show "GetHeader E' = GetHeader E" "GetBlock E' = GetBlock E" "GetPreimage E' = GetPreimage E"
    by (intro ext; unfold GetHeader_def GetBlock_def GetPreimage_def db_get_def E; rule refl)+
qed

lemma chain_grows_like: "env_like E E' \<Longrightarrow> chain_grows E' c c' = chain_grows E c c'"
  by (simp add: chain_grows_def env_like_reads)

lemma env_ok_like: "env_like E E' \<Longrightarrow> env_ok E \<Longrightarrow> env_ok E'"
  by (simp add: env_ok_def json_ok_def env_like_def)

lemma keeps_bcast_try: "keeps (chain_grows E) (go_try (bcast E m h) go_ret (\<lambda>e. go_ret ()))"
  by (intro growth.keeps_intros keeps_writes)

lemma AddOrOrphan_grows:
  assumes "env_ok E" "AddOrOrphan E req c = Some (r, c')"
  shows "chain_grows E c c'"
proof -
  from assms(2) obtain r1 c1 where h: "AddOrOrphanHelper E req c = Some (r1, c1)"
    by (auto simp: AddOrOrphan_def)
  have "chain_grows E c c1" using AddOrOrphanHelper_grows [OF assms(1) h] by simp
  moreover have "chain_grows E c1 c'"
    using keeps_bcast_try [of E BcastBlockRPC "hmHash req"] assms(2) h
    by (auto simp: AddOrOrphan_def BcastBlock_def keeps_def split: res.splits if_splits) (metis snd_conv)
  ultimately show ?thesis by (rule growth.trans)
qed

lemma keeps_AdoptMinedBlock:
  assumes "env_ok E"
  shows "chain_grows E c (snd (AdoptMinedBlock E b c))"
proof -
  have "keeps (chain_grows E) (go_bind (go_read (\<lambda>c. prechecked E b)) (\<lambda>ok. if \<not> ok then go_ret ()
       else go_try (ExtendMainChain E (bkHeader b) b)
         (\<lambda>success. if \<not> success then go_ret ()
                    else go_try (BcastBlock E (header_hash E (bkHeader b))) go_ret (\<lambda>e. go_ret ()))
         (\<lambda>e. go_ret ())))"
    unfolding BcastBlock_def using keeps_ExtendMainChain [OF assms] by (auto intro!: growth.keeps_intros keeps_writes)
  then show ?thesis by (simp add: AdoptMinedBlock_def keeps_def)
qed

lemma run_task_grows:
  assumes "env_ok E" "run_task E task c = Some (r, c')"
  shows "chain_grows E c c'"
proof (cases task)
  case (TBlock req)
  with assms AddOrOrphan_grows show ?thesis by auto
next
  case (TTxn req)
  with assms keeps_AddToTxnPool [of E req] show ?thesis by (simp add: keeps_def) (metis snd_conv)
next
  case (TMined b)
  with assms keeps_AdoptMinedBlock [OF assms(1), of c b] show ?thesis by simp
next
  case (TAdopt t)
  with assms keeps_AdoptTxn [of E t] show ?thesis by (simp add: keeps_def) (metis snd_conv)
qed

lemma serve_rpc_grows: "serve_rpc E q c = (r, c') \<Longrightarrow> chain_grows E c c'"
  using keeps_writes(7) [of E "rpc_address q"] serve_rpc_state [of E q c] by (simp add: keeps_def)

lemma loop_step_grows: "env_ok E \<Longrightarrow> loop_step E s t \<Longrightarrow> chain_grows E (lpClient s) (lpClient t)"
  by (erule loop_stepE)
    (use keeps_writes(9) in \<open>auto simp: run_task_grows serve_rpc_grows keeps_def\<close>)

lemma loop_run_grows: "loop_run E s t \<Longrightarrow> env_ok E \<Longrightarrow> chain_grows E (lpClient s) (lpClient t)"
  by (induction rule: loop_run.induct)
    (auto intro: growth.trans loop_step_grows env_ok_like simp: chain_grows_like [symmetric])

section \<open>Properties\<close>

text \<open>
  C18: The tasks of a client exclude each other: in every state the loop reaches, unless a panic has ended it, there is
  exactly one start signal in circulation, so at most one task executes; and while a task waits, either the
  start signal is on offer, or a task executes, or a completion is waiting to be received.
\<close>

theorem tasks_serialised:
  assumes "loop_run E (loop_init c) s"
  shows "crashed s \<or> (starters s + length (executing s) + length (finished s) = 1 \<and> length (executing s) \<le> 1)"
  using one_task_run [OF assms one_task_init] by (auto simp: one_task_def)

lemma demo_run: "loop_run demo_env (loop_init demo_stored) (loop_init demo_stored)"
  by (rule run_refl)

theorem tasks_serialised_witness:
  "\<exists>s. loop_run demo_env (loop_init demo_stored) s \<and> executing s = [TAdopt demo_coinbase] \<and> starters s = 0"
proof -
  let ?a = "(loop_init demo_stored)\<lparr>frontier := insert (Txn_Hash demo_env demo_coinbase) {}, waiting := [TAdopt demo_coinbase]\<rparr>"
  have like: "env_like demo_env demo_env" by (simp add: env_like_def)
  have "loop_step demo_env (loop_init demo_stored) ?a"
    using loop_step.new_txn [of "loop_init demo_stored" demo_env demo_coinbase] by (simp add: loop_init_def)
  with like have a: "loop_run demo_env (loop_init demo_stored) ?a" by (rule run_step [OF run_refl])
  let ?b = "?a\<lparr>starters := 0, waiting := [], executing := [TAdopt demo_coinbase]\<rparr>"
  have "loop_step demo_env ?a ?b"
    using loop_step.start_signal [of ?a 0 "TAdopt demo_coinbase" demo_env] by (simp add: loop_init_def)
  with a like have b: "loop_run demo_env (loop_init demo_stored) ?b" by (rule run_step)
  have "crashed ?b \<or> (starters ?b + length (executing ?b) + length (finished ?b) = 1 \<and> length (executing ?b) \<le> 1)"
    by (rule tasks_serialised [OF b])
  with b show ?thesis by (intro exI [of _ ?b]) simp
qed

text \<open>
  C19: Over any run of the loop the chain of a client only grows: every header and block it could read it still can, and
  every preimage it has marked as spent stays marked, so a payment once confirmed is never accepted again.
\<close>

theorem run_preserves_chain:
  assumes "env_ok E" "loop_run E s t"
  shows "chain_grows E (lpClient s) (lpClient t)
    \<and> (VerifyTxn E (lpClient t) txn None None None None = Ok False
       \<or> \<not> (\<exists>p. pimg_hash E txn = Ok p \<and> GetPreimage E (lpClient s) p))"
proof -
  have g: "chain_grows E (lpClient s) (lpClient t)" by (rule loop_run_grows [OF assms(2,1)])
  then show ?thesis using VerifyTxn_spent [of E txn] by (auto simp: chain_grows_def)
qed

theorem run_preserves_chain_witness:
  "chain_grows demo_env demo_stored
     (demo_stored\<lparr>dbm := (dbm demo_stored)\<lparr>peerDB := snd (ldbPut alist_db (peerDB (dbm demo_stored)) [9] [])\<rparr>\<rparr>)"
proof -
  let ?s = "loop_init demo_stored"
  let ?q = "CallBcastBlock \<lparr>hmAddress = [9], hmHash = 0\<rparr>"
  let ?t = "?s\<lparr>lpClient := snd (serve_rpc demo_env ?q demo_stored)\<rparr>"
  have like: "env_like demo_env demo_env" by (simp add: env_like_def)
  have "loop_step demo_env ?s ?t"
    by (rule loop_step.serve [where q = ?q and r = "Ok ()"])
      (simp_all add: loop_init_def unanswered_def BcastBlockRPC_handler_def announce_def HandleRPC_def go_bind_apply prod_eq_iff
        PutPeer_def db_upd_cases demo_env_def alist_db_def)
  from run_preserves_chain [OF env_ok_demo_env run_step [OF run_refl like this]]
  have "chain_grows demo_env demo_stored (snd (serve_rpc demo_env ?q demo_stored))"
    by (simp add: loop_init_def)
  then show ?thesis
    unfolding serve_rpc_state by (simp add: PutPeer_def db_upd_cases demo_env_def alist_db_def)
qed

text \<open>
  C20: The loop does not get stuck on its own: as long as no panic has ended it and every executing task ends without a panic,
  a waiting task leads to a further step: it can be started, or the executing task can complete, or a completion can
  be received.
\<close>

theorem waiting_task_progress:
  assumes "loop_run E (loop_init c) s" "\<not> crashed s" "waiting s \<noteq> []"
    and "\<And>task. task \<in> set (executing s) \<Longrightarrow> \<exists>r c'. run_task E task (lpClient s) = Some (r, c') \<and> r \<noteq> Panic"
  shows "\<exists>s'. loop_step E s s' \<and> (length (waiting s') < length (waiting s) \<or> length (executing s') < length (executing s)
    \<or> length (finished s') < length (finished s))"
proof -
  have one: "starters s + length (executing s) + length (finished s) = 1"
    using one_task_run [OF assms(1) one_task_init] assms(2) by (simp add: one_task_def)
  consider "starters s = 1" | task where "executing s = [task]" | h where "finished s = [h]"
  proof -
    have "starters s = 1 \<or> length (executing s) = 1 \<or> length (finished s) = 1" using one by linarith
    then show thesis using that by (auto simp: length_Suc_conv)
  qed
  then show ?thesis
  proof cases
    case 1
    obtain task ts where w: "waiting s = task # ts" using assms(3) by (cases "waiting s") auto
    from loop_step.start_signal [OF assms(2), of 0 task E] 1 w show ?thesis by (intro exI conjI) auto
  next
    case (2 task)
    then obtain r c' where "run_task E task (lpClient s) = Some (r, c')" "r \<noteq> Panic" using assms(4) by auto
    from loop_step.complete [OF assms(2) _ this] 2 show ?thesis by (intro exI conjI) auto
  next
    case (3 h)
    from loop_step.done_signal [OF assms(2), of h E] 3 show ?thesis by (intro exI conjI) auto
  qed
qed

theorem waiting_task_progress_witness:
  "\<exists>s. waiting s = [TAdopt demo_coinbase] \<and> (\<exists>s'. loop_step demo_env s s')"
proof -
  let ?a = "(loop_init demo_stored)\<lparr>frontier := insert (Txn_Hash demo_env demo_coinbase) {}, waiting := [TAdopt demo_coinbase]\<rparr>"
  have like: "env_like demo_env demo_env" by (simp add: env_like_def)
  have "loop_step demo_env (loop_init demo_stored) ?a"
    using loop_step.new_txn [of "loop_init demo_stored" demo_env demo_coinbase] by (simp add: loop_init_def)
  with like have a: "loop_run demo_env (loop_init demo_stored) ?a" by (rule run_step [OF run_refl])
  have "\<exists>s'. loop_step demo_env ?a s' \<and> (length (waiting s') < length (waiting ?a) \<or> length (executing s') < length (executing ?a)
    \<or> length (finished s') < length (finished ?a))"
    by (rule waiting_task_progress [OF a]) (simp_all add: loop_init_def)
  then show ?thesis by (intro exI [of _ ?a]) auto
qed

end
