(* ===== verification/WalletAuth.thy ===== *)
theory WalletAuth
  imports ClientLoop
begin

text \<open>
  The wallet server of \<^verbatim>\<open>wallet-server.go\<close>, first part: its three databases, its password and
  token checks and the handlers that only read.  Reading a request and writing a response are the
  types \<open>request\<close> and \<open>resp\<close>.
\<close>

section \<open>State and environment\<close>

record 'd WalletServer =
  wsClient :: "'d Client"
  wsAddress :: bytes
  authDB :: 'd
  privDB :: 'd
  txnDB :: 'd
  Privs :: "WalletPrivateKey list"
  Outputs :: "OutputPlaintext list"
  wsTxnChan :: "Txn list"

text \<open>
  The transactions sent on the client's \<^verbatim>\<open>TxnChan\<close> are \<open>wsTxnChan\<close>.  Beside the client's
  environment, the wallet calls the JSON codecs of its keys, of output records and of request bodies
  (with \<^verbatim>\<open>Decoder.Decode\<close>), \<^verbatim>\<open>Time.String\<close>, and the random source: four draws to create a
  wallet, those of \<^verbatim>\<open>NewTxn\<close> to sign.
\<close>

record SignMsg =
  smAddress :: WalletPublicKey
  smAmount :: u64
  smFee :: u64

record 'd wenv =
  wEnv :: "'d env"
  encPriv :: "WalletPrivateKey \<Rightarrow> bytes"
  decPriv :: "bytes \<Rightarrow> gerr + WalletPrivateKey"
  encPub :: "WalletPublicKey \<Rightarrow> bytes"
  encOP :: "OutputPlaintext \<Rightarrow> bytes"
  decOP :: "bytes \<Rightarrow> gerr + OutputPlaintext"
  bodyPassword :: "bytes \<Rightarrow> gerr + bytes"
  bodySign :: "bytes \<Rightarrow> gerr + SignMsg"
  bodyBlock :: "bytes \<Rightarrow> gerr + Block"
  timeString :: "go_time \<Rightarrow> string"
  rndCreate :: "nat \<Rightarrow> SHA256Sum option"
  rndOut :: "nat \<Rightarrow> out_draws"
  rndK1 :: SHA256Sum
  rndK2 :: SHA256Sum
  rndR :: "nat \<Rightarrow> SHA256Sum"
  rndS :: "nat \<Rightarrow> SHA256Sum"

abbreviation wget :: "'d wenv \<Rightarrow> 'd \<Rightarrow> bytes \<Rightarrow> bytes option res" where
  "wget W d k \<equiv> db_get (wEnv W) d k"

abbreviation whash :: "'d wenv \<Rightarrow> bytes \<Rightarrow> SHA256Sum" where
  "whash W \<equiv> eHash (wEnv W)"

definition ws_upd :: "('d \<Rightarrow> gerr option \<times> 'd) \<Rightarrow> ('d WalletServer \<Rightarrow> 'd) \<Rightarrow> (('d \<Rightarrow> 'd) \<Rightarrow> 'd WalletServer \<Rightarrow> 'd WalletServer)
    \<Rightarrow> ('d WalletServer, unit) go" where
  "ws_upd w sel upd = (\<lambda>s. case w (sel s) of (e, d) \<Rightarrow> ((case e of None \<Rightarrow> Ok () | Some err \<Rightarrow> Err err), upd (\<lambda>_. d) s))"

definition PASSWORD_KEY :: bytes where "PASSWORD_KEY = map (\<lambda>c. of_nat (of_char c)) ''password''"
definition SALT_KEY :: bytes where "SALT_KEY = map (\<lambda>c. of_nat (of_char c)) ''salt''"
definition TOKEN_KEY :: bytes where "TOKEN_KEY = map (\<lambda>c. of_nat (of_char c)) ''token''"

section \<open>Passwords and tokens\<close>

text \<open>
  The loop over the stored hash: \<open>Some\<close> is a return from inside it.  A stored hash that is shorter than
  32 bytes is only compared as far as it goes.
\<close>

fun check_hash :: "bytes \<Rightarrow> bytes \<Rightarrow> SHA256Sum res option" where
  "check_hash [] hash = None"
| "check_hash (b # bs) [] = Some (Ok 0)"
| "check_hash (b # bs) (h # hs) =
     (if b \<noteq> h then Some (Err (ErrMsg ''Authentication unsucessful'')) else check_hash bs hs)"

definition AuthenicatePassword :: "'d wenv \<Rightarrow> bytes \<Rightarrow> 'd WalletServer \<Rightarrow> SHA256Sum res" where
  "AuthenicatePassword W password ws =
     res_bind (wget W (authDB ws) SALT_KEY) (\<lambda>saltBytes.
     res_bind (wget W (authDB ws) PASSWORD_KEY) (\<lambda>hashBytes.
       if saltBytes = None \<or> hashBytes = None then Err (ErrMsg ''No wallet credentials in database'')
       else let hash = whash W (slice saltBytes @ password)
         in (case check_hash (slice hashBytes) (sum_bytes hash) of
               Some r \<Rightarrow> r
             | None \<Rightarrow> res_bind (wget W (authDB ws) TOKEN_KEY) (\<lambda>tokenBytes.
                 if length (slice tokenBytes) < 32 then Panic else Ok (bytes_sum (take 32 (slice tokenBytes)))))))"

fun decode_all :: "(bytes \<Rightarrow> gerr + 'a) \<Rightarrow> (bytes \<times> bytes) list \<Rightarrow> 'a list res" where
  "decode_all dec [] = Ok []"
| "decode_all dec ((k, v) # kvs) =
     res_bind (of_sum (dec v)) (\<lambda>a. res_bind (decode_all dec kvs) (\<lambda>as. Ok (a # as)))"

definition Refresh :: "'d wenv \<Rightarrow> ('d WalletServer, unit) go" where
  "Refresh W =
     go_bind (go_read (\<lambda>ws. decode_all (decPriv W) (ldbIter (eLdb (wEnv W)) (privDB ws)))) (\<lambda>privs.
     go_bind (go_modify (\<lambda>ws. ws\<lparr>Privs := privs\<rparr>)) (\<lambda>u.
     go_bind (go_read (\<lambda>ws. decode_all (decOP W) (ldbIter (eLdb (wEnv W)) (txnDB ws)))) (\<lambda>txns.
       go_modify (\<lambda>ws. ws\<lparr>Outputs := txns\<rparr>))))"

text \<open>Draws 0 and 1 are the salt and the seed of the token, 2 and 3 the new private key.\<close>

definition Create :: "'d wenv \<Rightarrow> bytes \<Rightarrow> ('d WalletServer, SHA256Sum) go" where
  "Create W password =
     (let L = eLdb (wEnv W)
      in go_bind (go_read (\<lambda>ws. RandomInt (rndCreate W 0))) (\<lambda>salt.
         let hash = whash W (int_be salt @ password)
         in go_bind (go_read (\<lambda>ws. RandomInt (rndCreate W 1))) (\<lambda>seed.
            let token = whash W (int_be seed)
            in go_bind (ws_upd (\<lambda>d. ldbPut L d PASSWORD_KEY (sum_bytes hash)) authDB authDB_update) (\<lambda>u.
               go_bind (ws_upd (\<lambda>d. ldbPut L d SALT_KEY (int_be salt)) authDB authDB_update) (\<lambda>u.
               go_bind (ws_upd (\<lambda>d. ldbPut L d TOKEN_KEY (sum_bytes token)) authDB authDB_update) (\<lambda>u.
               go_bind (go_read (\<lambda>ws. NewPrivateKey (eCurve (wEnv W)) (rndCreate W 2) (rndCreate W 3))) (\<lambda>address.
               let addressHash = whash W (encPub W (PrivateKey_PublicKey address))
               in go_bind (ws_upd (\<lambda>d. ldbPut L d (sum_bytes addressHash) (encPriv W address)) privDB privDB_update) (\<lambda>u.
                  go_bind (Refresh W) (\<lambda>u. go_ret token)))))))))"

definition Open :: "'d wenv \<Rightarrow> bytes \<Rightarrow> ('d WalletServer, SHA256Sum) go" where
  "Open W password =
     go_try (go_read (AuthenicatePassword W password))
       (\<lambda>token. if token = 0 then Create W password else go_bind (Refresh W) (\<lambda>u. go_ret token))
       (\<lambda>e. Create W password)"

section \<open>Requests\<close>

text \<open>A request: the value of the token cookie, when there is one, and the body.\<close>

record request =
  rqCookie :: "string option"
  rqBody :: bytes

record BalanceMsg =
  bmBalance :: u64
  bmOutputs :: "OutputPlaintext list"

datatype resp =
    HttpError nat gerr
  | TokenResp SHA256Sum
  | BalanceResp BalanceMsg
  | TrackingResp "WalletTrackingKey list"
  | TxnResp Txn
  | Accepted

text \<open>The loop of \<^verbatim>\<open>authenticateToken\<close>, which panics on a stored token that is too short.\<close>

fun check_token :: "bytes \<Rightarrow> bytes \<Rightarrow> unit res" where
  "check_token [] stored = Ok ()"
| "check_token (b # bs) [] = Panic"
| "check_token (b # bs) (t # ts) = (if b \<noteq> t then Err (ErrMsg ''Invalid token'') else check_token bs ts)"

text \<open>\<open>None\<close>: authenticated; otherwise the error response that has been written.\<close>

definition authenticateToken :: "'d wenv \<Rightarrow> request \<Rightarrow> 'd WalletServer \<Rightarrow> resp option res" where
  "authenticateToken W r ws =
     (case rqCookie r of
        None \<Rightarrow> Ok (Some (HttpError 401 (ErrMsg ''http: named cookie not present'')))
      | Some cookie \<Rightarrow>
          (case b64_dec cookie of
             None \<Rightarrow> Ok (Some (HttpError 401 (ErrMsg ''illegal base64 data'')))
           | Some token \<Rightarrow>
               if length token \<noteq> 32 then Ok (Some (HttpError 401 (ErrMsg ''Invalid token length'')))
               else res_try (wget W (authDB ws) TOKEN_KEY)
                      (\<lambda>tokenBytes. res_try (check_token token (slice tokenBytes))
                         (\<lambda>u. Ok None) (\<lambda>e. Ok (Some (HttpError 401 e))))
                      (\<lambda>e. Ok (Some (HttpError 500 e)))))"

text \<open>What every handler but the first begins with: the token check, then a refresh; \<open>Some\<close> is an early response.\<close>

definition authorise :: "'d wenv \<Rightarrow> request \<Rightarrow> ('d WalletServer, resp option) go" where
  "authorise W r =
     go_bind (go_read (authenticateToken W r)) (\<lambda>denied.
       case denied of Some resp \<Rightarrow> go_ret (Some resp)
       | None \<Rightarrow> go_try (Refresh W) (\<lambda>u. go_ret None) (\<lambda>e. go_ret (Some (HttpError 500 e))))"

definition authorised :: "'d wenv \<Rightarrow> request \<Rightarrow> ('d WalletServer, resp) go \<Rightarrow> ('d WalletServer, resp) go" where
  "authorised W r body = go_bind (authorise W r) (\<lambda>early. case early of Some resp \<Rightarrow> go_ret resp | None \<Rightarrow> body)"

definition handleOpen :: "'d wenv \<Rightarrow> request \<Rightarrow> ('d WalletServer, resp) go" where
  "handleOpen W r =
     (case bodyPassword W (rqBody r) of
        Inl e \<Rightarrow> go_ret (HttpError 400 e)
      | Inr password \<Rightarrow>
          go_try (Open W password)
            (\<lambda>token. if token = 0 then go_panic else go_ret (TokenResp token))
            (\<lambda>e. go_ret (HttpError 500 e)))"

definition light :: "OutputPlaintext \<Rightarrow> OutputPlaintext" where
  "light o1 = \<lparr>opOutput = None, opHashPub = opHashPub o1, opTime = opTime o1, opAmount = opAmount o1, opHeight = 0\<rparr>"

definition handleBalance :: "'d wenv \<Rightarrow> request \<Rightarrow> ('d WalletServer, resp) go" where
  "handleBalance W r = authorised W r
     (go_read (\<lambda>ws. Ok (BalanceResp \<lparr>bmBalance = foldl (\<lambda>balance o1. balance + opAmount o1) 0 (Outputs ws),
        bmOutputs = map light (Outputs ws)\<rparr>)))"

definition handleTracking :: "'d wenv \<Rightarrow> request \<Rightarrow> ('d WalletServer, resp) go" where
  "handleTracking W r = authorised W r
     (go_read (\<lambda>ws. if Privs ws = [] then Ok (HttpError 500 (ErrMsg ''No private keys''))
        else Ok (TrackingResp (map TrackingKey (Privs ws)))))"

section \<open>Tokens are what \<open>Open\<close> gave out\<close>

lemma ws_upd_cases:
  "ws_upd w sel upd s = ((case fst (w (sel s)) of None \<Rightarrow> Ok () | Some e \<Rightarrow> Err e), upd (\<lambda>_. snd (w (sel s))) s)"
  by (simp add: ws_upd_def split: prod.splits)

lemma wallet_keys_distinct [simp]:
  "PASSWORD_KEY \<noteq> SALT_KEY" "PASSWORD_KEY \<noteq> TOKEN_KEY" "SALT_KEY \<noteq> PASSWORD_KEY" "SALT_KEY \<noteq> TOKEN_KEY"
  "TOKEN_KEY \<noteq> PASSWORD_KEY" "TOKEN_KEY \<noteq> SALT_KEY"
proof -
  have "length PASSWORD_KEY = 8" "length SALT_KEY = 4" "length TOKEN_KEY = 5"
    by (simp_all add: PASSWORD_KEY_def SALT_KEY_def TOKEN_KEY_def)
  then show "PASSWORD_KEY \<noteq> SALT_KEY" "PASSWORD_KEY \<noteq> TOKEN_KEY" "SALT_KEY \<noteq> PASSWORD_KEY" "SALT_KEY \<noteq> TOKEN_KEY"
    "TOKEN_KEY \<noteq> PASSWORD_KEY" "TOKEN_KEY \<noteq> SALT_KEY" by auto
qed

lemma check_token_iff: "check_token token stored = Ok () \<longleftrightarrow> token = take (length token) stored"
  by (induction token stored rule: check_token.induct) auto

lemma check_hash_self: "check_hash bs bs = None"
  by (induction bs) simp_all

lemma check_hash_zero: "check_hash bs hash = Some (Ok t) \<Longrightarrow> t = 0"
  by (induction bs hash rule: check_hash.induct) (auto split: if_splits)

lemma authenticateToken_iff:
  "authenticateToken W r ws = Ok None \<longleftrightarrow>
     (\<exists>cookie token stored. rqCookie r = Some cookie \<and> b64_dec cookie = Some token \<and> length token = 32
       \<and> wget W (authDB ws) TOKEN_KEY = Ok stored \<and> token = take 32 (slice stored))"
proof -
  have "(res_try (check_token token bs) (\<lambda>u. Ok None) (\<lambda>e. Ok (Some (HttpError 401 e))) = Ok None)
      \<longleftrightarrow> token = take 32 bs" if "length token = 32" for token bs
    using check_token_iff [of token bs] that by (cases "check_token token bs") auto
  then show ?thesis
    by (cases "wget W (authDB ws) TOKEN_KEY") (auto simp: authenticateToken_def split: option.splits)
qed

text \<open>Refreshing reads the databases and replaces the two lists.\<close>

lemma Refresh_frame:
  "authDB (snd (Refresh W ws)) = authDB ws" "privDB (snd (Refresh W ws)) = privDB ws"
  "txnDB (snd (Refresh W ws)) = txnDB ws" "wsClient (snd (Refresh W ws)) = wsClient ws"
  "wsTxnChan (snd (Refresh W ws)) = wsTxnChan ws"
  by (simp_all add: Refresh_def go_bind_apply split: res.splits)

lemma Refresh_eq_Ok:
  "Refresh W ws = (Ok u, ws') \<longleftrightarrow> (\<exists>privs txns. decode_all (decPriv W) (ldbIter (eLdb (wEnv W)) (privDB ws)) = Ok privs
     \<and> decode_all (decOP W) (ldbIter (eLdb (wEnv W)) (txnDB ws)) = Ok txns \<and> ws' = ws\<lparr>Privs := privs, Outputs := txns\<rparr>)"
  by (auto simp: Refresh_def go_bind_apply split: res.splits)

lemma decode_all_iff: "(\<exists>as. decode_all dec kvs = Ok as) \<longleftrightarrow> (\<forall>v \<in> snd ` set kvs. \<exists>a. dec v = Inr a)"
proof (induction kvs)
  case (Cons kv kvs)
  obtain k v where kv: "kv = (k, v)" by (cases kv)
  then show ?case using Cons by (cases "dec v") (auto simp: of_sum_def res_bind_eq_Ok)
qed simp

lemma ws_upd_eq_Ok: "ws_upd w sel upd s = (Ok u, s') \<longleftrightarrow> fst (w (sel s)) = None \<and> s' = upd (\<lambda>_. snd (w (sel s))) s"
  by (auto simp: ws_upd_cases split: option.splits)

lemma Create_Ok:
  assumes "ldb_ok (eLdb (wEnv W)) view" "Create W password ws = (Ok t, ws')"
  obtains salt where "wget W (authDB ws') SALT_KEY = Ok (Some (int_be salt))"
    "wget W (authDB ws') PASSWORD_KEY = Ok (Some (sum_bytes (whash W (int_be salt @ password))))"
    "wget W (authDB ws') TOKEN_KEY = Ok (Some (sum_bytes t))"
proof -
  let ?L = "eLdb (wEnv W)"
  from assms(2) obtain salt d1 d2 d3 where
    p: "fst (ldbPut ?L (authDB ws) PASSWORD_KEY (sum_bytes (whash W (int_be salt @ password)))) = None"
       "d1 = snd (ldbPut ?L (authDB ws) PASSWORD_KEY (sum_bytes (whash W (int_be salt @ password))))"
       "fst (ldbPut ?L d1 SALT_KEY (int_be salt)) = None" "d2 = snd (ldbPut ?L d1 SALT_KEY (int_be salt))"
       "fst (ldbPut ?L d2 TOKEN_KEY (sum_bytes t)) = None" "d3 = snd (ldbPut ?L d2 TOKEN_KEY (sum_bytes t))"
    and d3: "authDB ws' = d3"
    by (auto simp: Create_def Let_def go_bind_eq_Ok ws_upd_eq_Ok Refresh_eq_Ok go_bind_read split: res.splits)
  show thesis
    by (rule that [of salt]) (use p(1,3,5) in \<open>simp_all add: d3 p(2,4,6) ldb_get_put [OF assms(1)] db_get_def\<close>)
qed

lemma Create_authenticates:
  assumes "ldb_ok (eLdb (wEnv W)) view" "Create W password ws = (Ok t, ws')"
  shows "AuthenicatePassword W password ws' = Ok t"
  by (rule Create_Ok [OF assms]) (simp add: AuthenicatePassword_def slice_def check_hash_self)

lemma AuthenicatePassword_token:
  assumes "AuthenicatePassword W password ws = Ok t" "t \<noteq> 0"
  obtains stored where "wget W (authDB ws) TOKEN_KEY = Ok stored" "take 32 (slice stored) = sum_bytes t"
proof -
  from assms obtain stored where "wget W (authDB ws) TOKEN_KEY = Ok stored" "32 \<le> length (slice stored)"
    "t = bytes_sum (take 32 (slice stored))"
    by (auto simp: AuthenicatePassword_def Let_def res_bind_eq_Ok split: if_splits option.splits dest: check_hash_zero)
  then show thesis by (intro that [of stored]) (simp_all add: sum_bytes_bytes_sum)
qed

lemma Open_token:
  assumes "ldb_ok (eLdb (wEnv W)) view" "Open W password ws = (Ok t, ws')"
  shows "\<exists>stored. wget W (authDB ws') TOKEN_KEY = Ok stored \<and> take 32 (slice stored) = sum_bytes t"
proof (cases "Create W password ws = (Ok t, ws')")
  case True
  then show ?thesis by (rule Create_Ok [OF assms(1)]) (simp add: slice_def)
next
  case False
  with assms(2) have "AuthenicatePassword W password ws = Ok t" "t \<noteq> 0" "authDB ws' = authDB ws"
    by (auto simp: Open_def go_try_read go_bind_eq_Ok Refresh_eq_Ok split: res.splits if_splits)
  then show ?thesis using AuthenicatePassword_token by metis
qed

lemma token_cookie_accepted:
  assumes "ldb_ok (eLdb (wEnv W)) view" "Open W password ws = (Ok t, ws')"
    and "rqCookie r = Some (b64_enc (sum_bytes t))"
  shows "authenticateToken W r ws' = Ok None"
  unfolding authenticateToken_iff using Open_token [OF assms(1,2)] assms(3) by auto

section \<open>Any password opens the wallet\<close>

definition wenv_ok :: "'d wenv \<Rightarrow> bool" where
  "wenv_ok W \<longleftrightarrow> env_ok (wEnv W) \<and> (\<forall>k. decPriv W (encPriv W k) = Inr k) \<and> (\<forall>p. decOP W (encOP W p) = Inr p)"

lemma ldb_values: "ldb_ok L view \<Longrightarrow> snd ` set (ldbIter L d) = ran (view d)"
  using ran_distinct [of "ldbIter L d"] by (simp add: ldb_ok_def)

lemma decode_all_put:
  assumes "ldb_ok L view" "\<exists>as. decode_all dec (ldbIter L d) = Ok as" "\<exists>a. dec v = Inr a"
  shows "\<exists>as. decode_all dec (ldbIter L (snd (ldbPut L d k v))) = Ok as"
proof -
  have "ran (view (snd (ldbPut L d k v))) \<subseteq> insert v (ran (view d))"
    using assms(1) by (auto simp: ldb_ok_def ran_def split: if_splits)
  with assms show ?thesis unfolding decode_all_iff ldb_values [OF assms(1)] by blast
qed

definition new_priv_key :: "'d wenv \<Rightarrow> bytes \<Rightarrow> bool" where
  "new_priv_key W k \<longleftrightarrow> (\<exists>priv. NewPrivateKey (eCurve (wEnv W)) (rndCreate W 2) (rndCreate W 3) = Ok priv
     \<and> k = sum_bytes (whash W (encPub W (PrivateKey_PublicKey priv))))"

lemma Create_total:
  assumes ok: "wenv_ok W" "ldb_reliable (eLdb (wEnv W))" and rnd: "\<And>i. i < 4 \<Longrightarrow> \<exists>r. rndCreate W i = Some r"
    and refresh: "fst (Refresh W ws) = Ok ()"
  obtains t ws' where "Create W password ws = (Ok t, ws')" "txnDB ws' = txnDB ws"
    "\<And>k v. ldbGet (eLdb (wEnv W)) (privDB ws) k = Inr v \<Longrightarrow> \<not> new_priv_key W k \<Longrightarrow> ldbGet (eLdb (wEnv W)) (privDB ws') k = Inr v"
proof -
  let ?L = "eLdb (wEnv W)"
  obtain view where view: "ldb_ok ?L view" using ok(1) by (auto simp: wenv_ok_def env_ok_def)
  have put: "fst (ldbPut ?L d k v) = None" for d k v using ok(2) by (simp add: ldb_reliable_def)
  obtain r0 r1 r2 r3 where r: "rndCreate W 0 = Some r0" "rndCreate W (Suc 0) = Some r1" "rndCreate W 2 = Some r2" "rndCreate W 3 = Some r3"
    using rnd [of 0] rnd [of "Suc 0"] rnd [of 2] rnd [of 3] by auto
  obtain priv where priv: "NewPrivateKey (eCurve (wEnv W)) (Some r2) (Some r3) = Ok priv" by (auto simp: NewPrivateKey_Ok)
  let ?k = "sum_bytes (whash W (encPub W (PrivateKey_PublicKey priv)))"
  let ?d = "snd (ldbPut ?L (privDB ws) ?k (encPriv W priv))"
  from refresh obtain s0 where "Refresh W ws = (Ok (), s0)" by (metis prod.collapse)
  then obtain ps ts where "decode_all (decPriv W) (ldbIter ?L (privDB ws)) = Ok ps"
    and ts: "decode_all (decOP W) (ldbIter ?L (txnDB ws)) = Ok ts" by (auto simp: Refresh_eq_Ok)
  then obtain ps' where ps': "decode_all (decPriv W) (ldbIter ?L ?d) = Ok ps'"
    using decode_all_put [OF view, of "decPriv W" "privDB ws" "encPriv W priv" ?k] ok(1) by (auto simp: wenv_ok_def)
  let ?ws = "\<lambda>a. ws\<lparr>authDB := a, privDB := ?d, Privs := ps', Outputs := ts\<rparr>"
  have "\<exists>a. Create W password ws = (Ok (whash W (int_be (uint r1))), ?ws a)"
    by (simp add: Create_def Let_def go_bind_apply ws_upd_cases put r RandomInt_def RandomBytes_def priv Refresh_def ps' ts) blast
  then obtain a where "Create W password ws = (Ok (whash W (int_be (uint r1))), ?ws a)" ..
  then show thesis
    by (rule that) (use priv r in \<open>auto simp: ldb_get_put [OF view] new_priv_key_def\<close>)
qed

section \<open>Requests without the token\<close>

definition denial :: "resp res \<Rightarrow> bool" where
  "denial q \<longleftrightarrow> (q = Panic \<or> (\<exists>n e. q = Ok (HttpError n e)))"

lemma authenticateToken_denial:
  "authenticateToken W r ws = Ok (Some q) \<Longrightarrow> denial (Ok q)" "authenticateToken W r ws \<noteq> Err e"
proof -
  have t: "res_try (check_token token bs) (\<lambda>u. Ok None) (\<lambda>e. Ok (Some (HttpError 401 e))) \<noteq> Err e"
    "res_try (check_token token bs) (\<lambda>u. Ok None) (\<lambda>e. Ok (Some (HttpError 401 e))) = Ok (Some q) \<Longrightarrow> denial (Ok q)" for token bs
    by (cases "check_token token bs"; auto simp: denial_def)+
  show "authenticateToken W r ws = Ok (Some q) \<Longrightarrow> denial (Ok q)"
    by (cases "wget W (authDB ws) TOKEN_KEY") (auto simp: authenticateToken_def denial_def [of "Ok (HttpError _ _)"]
        dest: t(2) split: option.splits if_splits)
  show "authenticateToken W r ws \<noteq> Err e"
    by (cases "wget W (authDB ws) TOKEN_KEY") (auto simp: authenticateToken_def t(1) split: option.splits)
qed

lemma authorise_denied:
  assumes "authenticateToken W r ws \<noteq> Ok None"
  obtains q where "authorise W r ws = (Ok (Some q), ws)" "denial (Ok q)" | "authorise W r ws = (Panic, ws)"
proof (cases "authenticateToken W r ws")
  case (Ok q)
  with assms that(1) show thesis using authenticateToken_denial(1)
    by (cases q) (auto simp: authorise_def go_bind_read)
next
  case Panic
  with that(2) show thesis by (simp add: authorise_def go_bind_read)
qed (use authenticateToken_denial(2) in blast)

lemma authorised_denied:
  "authenticateToken W r ws \<noteq> Ok None \<Longrightarrow> \<exists>q. authorised W r body ws = (q, ws) \<and> denial q"
  by (erule authorise_denied) (auto simp: authorised_def go_bind_apply denial_def)

end
