(* ===== verification/WalletFunds.thy ===== *)
theory WalletFunds
  imports WalletAuth
begin

text \<open>
  The wallet server of \<^verbatim>\<open>wallet-server.go\<close>, second part: the choice of a funding output and of
  the other ring members, and the outputs it records for a block and deletes again.
\<close>

section \<open>Choosing inputs\<close>

text \<open>
  \<^verbatim>\<open>skPtr = &priv\<close> points to the variable of the loop over the keys, which is one variable for
  the whole loop (before Go 1.22) and holds the last key when the loop is over.
\<close>

fun any_belongs :: "'d wenv \<Rightarrow> Output option \<Rightarrow> WalletPrivateKey list \<Rightarrow> bool \<Rightarrow> bool res" where
  "any_belongs W o1 [] found = Ok found"
| "any_belongs W o1 (priv # privs) found =
     res_bind (deref o1) (\<lambda>out. res_bind (BelongsToMe (whash W) (eCurve (wEnv W)) out (TrackingKey priv)) (\<lambda>mine.
       any_belongs W o1 privs (found \<or> mine)))"

definition owner_ptr :: "'d wenv \<Rightarrow> WalletPrivateKey list \<Rightarrow> Output option \<Rightarrow> WalletPrivateKey option res" where
  "owner_ptr W privs o1 =
     res_bind (any_belongs W o1 privs False) (\<lambda>mine. Ok (if mine then Some (last privs) else None))"

text \<open>The state of the loop: the output chosen so far, if any, and the pointer to its key.\<close>

fun funding_loop :: "'d wenv \<Rightarrow> WalletPrivateKey list \<Rightarrow> u64 \<Rightarrow> OutputPlaintext list
    \<Rightarrow> (OutputPlaintext \<times> WalletPrivateKey option) option \<Rightarrow> (OutputPlaintext \<times> WalletPrivateKey option) option res" where
  "funding_loop W privs amount [] st = Ok st"
| "funding_loop W privs amount (txn # txns) st =
     (if amount \<le> opAmount txn \<and> (case st of None \<Rightarrow> True | Some (best, sk) \<Rightarrow> opAmount txn < opAmount best)
      then res_bind (owner_ptr W privs (opOutput txn)) (\<lambda>sk. funding_loop W privs amount txns (Some (txn, sk)))
      else funding_loop W privs amount txns st)"

definition findFundingTxn :: "'d wenv \<Rightarrow> u64 \<Rightarrow> 'd WalletServer \<Rightarrow> (OutputPlaintext \<times> WalletPrivateKey) option res" where
  "findFundingTxn W amount ws =
     res_bind (funding_loop W (Privs ws) amount (Outputs ws) None) (\<lambda>st.
       case st of Some (fundingTxn, Some sk) \<Rightarrow> Ok (Some (fundingTxn, sk)) | _ \<Rightarrow> Ok None)"

text \<open>
  The loops of \<^verbatim>\<open>RandomOutputs\<close>.  \<^verbatim>\<open>goto NextOutput\<close> jumps to a label that stands
  before the loop over the outputs, so it starts that loop again from the first output, keeping what has been
  appended.  The flag says that eight outputs have been found.
\<close>

partial_function (option) scan_outputs ::
    "'d env \<Rightarrow> bytes \<Rightarrow> Output list \<Rightarrow> Output list \<Rightarrow> Output list \<Rightarrow> (Output list \<times> bool) option" where
  "scan_outputs E pimgHash all rest outputs =
     (case rest of
        [] \<Rightarrow> Some (outputs, False)
      | o1 # os \<Rightarrow>
          if sum_bytes (output_hash E o1) \<noteq> pimgHash then scan_outputs E pimgHash all all outputs
          else if length (outputs @ [o1]) = TXN_NUM_INPUTS then Some (outputs @ [o1], True)
          else scan_outputs E pimgHash all os (outputs @ [o1]))"

fun scan_txns :: "'d env \<Rightarrow> bytes \<Rightarrow> Txn list \<Rightarrow> Output list \<Rightarrow> (Output list \<times> bool) option" where
  "scan_txns E pimgHash [] outputs = Some (outputs, False)"
| "scan_txns E pimgHash (txn # txns) outputs =
     (case scan_outputs E pimgHash (tbOutputs (txBody txn)) (tbOutputs (txBody txn)) outputs of
        None \<Rightarrow> None
      | Some (outputs', full) \<Rightarrow> if full then Some (outputs', True) else scan_txns E pimgHash txns outputs')"

fun scan_entries :: "'d env \<Rightarrow> 'd Client \<Rightarrow> (bytes \<times> bytes) list \<Rightarrow> Output list \<Rightarrow> Output list res option" where
  "scan_entries E c [] outputs = Some (Err (ErrMsg ''Not enough txns found''))"
| "scan_entries E c ((pimgHash, blockHash) # kvs) outputs =
     (if length pimgHash \<noteq> 32 \<or> length blockHash \<noteq> 32 then scan_entries E c kvs outputs
      else (case FindBlock E c (bytes_sum blockHash) of
          Err e \<Rightarrow> scan_entries E c kvs outputs
        | Panic \<Rightarrow> Some Panic
        | Ok None \<Rightarrow> Some Panic
        | Ok (Some block) \<Rightarrow>
            (case scan_txns E pimgHash (bkTxns block) outputs of
               None \<Rightarrow> None
             | Some (outputs', full) \<Rightarrow> if full then Some (Ok outputs') else scan_entries E c kvs outputs')))"

definition RandomOutputs :: "'d env \<Rightarrow> 'd Client \<Rightarrow> Output list res option" where
  "RandomOutputs E c = scan_entries E c (ldbIter (eLdb E) (mapDB (dbm c))) []"

section \<open>Keeping the wallet's outputs\<close>

definition plaintext_of :: "'d wenv \<Rightarrow> nat \<Rightarrow> u64 \<Rightarrow> WalletPrivateKey \<Rightarrow> Output \<Rightarrow> OutputPlaintext option res" where
  "plaintext_of W i coinbase priv o1 =
     (if i = 0 then res_bind (DecryptCoinbase (whash W) o1) (\<lambda>p. Ok (Some (p\<lparr>opAmount := coinbase\<rparr>)))
      else Decrypt (whash W) (eCurve (wEnv W)) o1 priv)"

definition put_plaintext :: "'d wenv \<Rightarrow> BlockHeader \<Rightarrow> Output \<Rightarrow> OutputPlaintext \<Rightarrow> ('d WalletServer, unit) go" where
  "put_plaintext W h o1 p =
     (let p' = p\<lparr>opTime := timeString W (bhTime h), opHeight := bhSeqNum h\<rparr>
      in ws_upd (\<lambda>d. ldbPut (eLdb (wEnv W)) d (sum_bytes (output_hash (wEnv W) o1)) (encOP W p')) txnDB txnDB_update)"

fun save_outputs :: "'d wenv \<Rightarrow> BlockHeader \<Rightarrow> u64 \<Rightarrow> nat \<Rightarrow> WalletPrivateKey \<Rightarrow> Output list \<Rightarrow> ('d WalletServer, unit) go" where
  "save_outputs W h coinbase i priv [] = go_ret ()"
| "save_outputs W h coinbase i priv (o1 # os) =
     go_bind (go_read (\<lambda>ws. BelongsToMe (whash W) (eCurve (wEnv W)) o1 (TrackingKey priv))) (\<lambda>mine.
       if \<not> mine then save_outputs W h coinbase i priv os
       else go_bind (go_read (\<lambda>ws. plaintext_of W i coinbase priv o1)) (\<lambda>plain.
              case plain of None \<Rightarrow> save_outputs W h coinbase i priv os
              | Some p \<Rightarrow> go_bind (put_plaintext W h o1 p) (\<lambda>u. save_outputs W h coinbase i priv os)))"

fun save_privs :: "'d wenv \<Rightarrow> BlockHeader \<Rightarrow> u64 \<Rightarrow> nat \<Rightarrow> Txn \<Rightarrow> WalletPrivateKey list \<Rightarrow> ('d WalletServer, unit) go" where
  "save_privs W h coinbase i txn [] = go_ret ()"
| "save_privs W h coinbase i txn (priv # privs) =
     go_bind (save_outputs W h coinbase i priv (tbOutputs (txBody txn))) (\<lambda>u. save_privs W h coinbase i txn privs)"

fun save_txns :: "'d wenv \<Rightarrow> BlockHeader \<Rightarrow> u64 \<Rightarrow> WalletPrivateKey list \<Rightarrow> nat \<Rightarrow> Txn list \<Rightarrow> ('d WalletServer, unit) go" where
  "save_txns W h coinbase privs i [] = go_ret ()"
| "save_txns W h coinbase privs i (txn # txns) =
     go_bind (save_privs W h coinbase i txn privs) (\<lambda>u. save_txns W h coinbase privs (Suc i) txns)"

definition saveMyTxns :: "'d wenv \<Rightarrow> Block \<Rightarrow> ('d WalletServer, unit) go" where
  "saveMyTxns W b =
     (let coinbase = foldl (\<lambda>coinbase txn. coinbase + tbFee (txBody txn)) (CoinbaseValue (bhSeqNum (bkHeader b))) (bkTxns b)
      in (\<lambda>ws. save_txns W (bkHeader b) coinbase (Privs ws) 0 (bkTxns b) ws))"

fun delete_outputs :: "'d wenv \<Rightarrow> Output list \<Rightarrow> ('d WalletServer, unit) go" where
  "delete_outputs W [] = go_ret ()"
| "delete_outputs W (o1 # os) =
     go_bind (ws_upd (\<lambda>d. ldbDelete (eLdb (wEnv W)) d (sum_bytes (output_hash (wEnv W) o1))) txnDB txnDB_update)
       (\<lambda>u. delete_outputs W os)"

definition deleteTxns :: "'d wenv \<Rightarrow> Block \<Rightarrow> ('d WalletServer, unit) go" where
  "deleteTxns W b = delete_outputs W (concat (map (\<lambda>txn. tbOutputs (txBody txn)) (bkTxns b)))"

section \<open>The funding output\<close>

lemma funding_loop_inv:
  assumes "funding_loop W privs amount txns st = Ok st'"
  shows "(case st' of
      None \<Rightarrow> st = None \<and> (\<forall>t \<in> set txns. opAmount t < amount)
    | Some (best, sk) \<Rightarrow> (st = Some (best, sk) \<or> best \<in> set txns \<and> amount \<le> opAmount best \<and> owner_ptr W privs (opOutput best) = Ok sk)
        \<and> (\<forall>t \<in> set txns. amount \<le> opAmount t \<longrightarrow> opAmount best \<le> opAmount t)
        \<and> (\<forall>b s. st = Some (b, s) \<longrightarrow> opAmount best \<le> opAmount b))"
  using assms
proof (induction txns arbitrary: st)
  case (Cons t txns)
  show ?case
  proof (cases "amount \<le> opAmount t \<and> (case st of None \<Rightarrow> True | Some (best, sk) \<Rightarrow> opAmount t < opAmount best)")
    case True
    with Cons.prems obtain sk where sk: "owner_ptr W privs (opOutput t) = Ok sk"
      "funding_loop W privs amount txns (Some (t, sk)) = Ok st'"
      by (auto simp: res_bind_eq_Ok)
    from Cons.IH [OF sk(2)] True sk(1) show ?thesis by (auto split: option.splits)
  next
    case False
    with Cons.prems have "funding_loop W privs amount txns st = Ok st'" by simp
    from Cons.IH [OF this] False show ?thesis by (auto split: option.splits)
  qed
qed (auto split: option.splits)

lemma findFundingTxn_loop:
  "findFundingTxn W amount ws = Ok (Some (txn, sk)) \<Longrightarrow> funding_loop W (Privs ws) amount (Outputs ws) None = Ok (Some (txn, Some sk))"
  by (auto simp: findFundingTxn_def res_bind_eq_Ok split: option.splits)

lemma findFundingTxn_covers: "findFundingTxn W amount ws = Ok (Some (txn, sk)) \<Longrightarrow> amount \<le> opAmount txn"
  using funding_loop_inv [OF findFundingTxn_loop] by fastforce

lemma any_belongs_True:
  "any_belongs W o1 privs found = Ok True \<Longrightarrow> found \<or> (\<exists>priv \<in> set privs. \<exists>out. o1 = Some out
     \<and> BelongsToMe (whash W) (eCurve (wEnv W)) out (TrackingKey priv) = Ok True)"
proof (induction privs arbitrary: found)
  case (Cons priv privs)
  then obtain out mine where o1: "o1 = Some out" "BelongsToMe (whash W) (eCurve (wEnv W)) out (TrackingKey priv) = Ok mine"
    "any_belongs W o1 privs (found \<or> mine) = Ok True"
    by (cases o1) (auto simp: res_bind_eq_Ok)
  from Cons.IH [OF this(3)] o1(1,2) show ?case by auto
qed simp

lemma owner_ptr_Some:
  "owner_ptr W privs o1 = Ok (Some sk) \<Longrightarrow> sk = last privs \<and> (\<exists>priv \<in> set privs. \<exists>out. o1 = Some out
     \<and> BelongsToMe (whash W) (eCurve (wEnv W)) out (TrackingKey priv) = Ok True)"
  by (auto simp: owner_ptr_def res_bind_eq_Ok split: if_splits dest: any_belongs_True)

section \<open>What is written to the output database\<close>

definition writes_only :: "'d leveldb \<times> (bytes \<Rightarrow> bytes \<Rightarrow> bool) \<Rightarrow> 'd WalletServer \<Rightarrow> 'd WalletServer \<Rightarrow> bool" where
  "writes_only LM s s' \<longleftrightarrow> (\<forall>k. ldbGet (fst LM) (txnDB s') k = ldbGet (fst LM) (txnDB s) k
     \<or> (\<exists>v. ldbGet (fst LM) (txnDB s') k = Inr (Some v) \<and> snd LM k v))"

interpretation txn_writes: state_order writes_only
proof unfold_locales
  show "writes_only LM s s" for LM :: "'a leveldb \<times> (bytes \<Rightarrow> bytes \<Rightarrow> bool)" and s
    by (simp add: writes_only_def)
  show "writes_only LM s t \<Longrightarrow> writes_only LM t u \<Longrightarrow> writes_only LM s u"
    for LM :: "'a leveldb \<times> (bytes \<Rightarrow> bytes \<Rightarrow> bool)" and s t u
    unfolding writes_only_def by metis
qed

text \<open>An entry of the output database for an output of the block that belongs to one of the keys.\<close>

definition mine_entry :: "'d wenv \<Rightarrow> BlockHeader \<Rightarrow> u64 \<Rightarrow> WalletPrivateKey list \<Rightarrow> nat \<Rightarrow> Txn list \<Rightarrow> bytes \<Rightarrow> bytes \<Rightarrow> bool" where
  "mine_entry W h coinbase privs j txns k v \<longleftrightarrow>
     (\<exists>i < length txns. \<exists>o1 \<in> set (tbOutputs (txBody (txns ! i))). \<exists>priv \<in> set privs. \<exists>p.
        BelongsToMe (whash W) (eCurve (wEnv W)) o1 (TrackingKey priv) = Ok True \<and> k = sum_bytes (output_hash (wEnv W) o1)
        \<and> v = encOP W p \<and> opOutput p = Some o1 \<and> opTime p = timeString W (bhTime h) \<and> opHeight p = bhSeqNum h
        \<and> (j + i = 0 \<longrightarrow> opAmount p = coinbase))"

lemma plaintext_of_output:
  "plaintext_of W i coinbase priv o1 = Ok (Some p) \<Longrightarrow> opOutput p = Some o1 \<and> (i = 0 \<longrightarrow> opAmount p = coinbase)"
  by (auto simp: plaintext_of_def DecryptCoinbase_def Decrypt_def res_bind_eq_Ok res_try_eq_Ok split: if_splits)

lemma put_plaintext_writes:
  assumes "ldb_ok (eLdb (wEnv W)) view"
    and "M (sum_bytes (output_hash (wEnv W) o1)) (encOP W (p\<lparr>opTime := timeString W (bhTime h), opHeight := bhSeqNum h\<rparr>))"
  shows "keeps (writes_only (eLdb (wEnv W), M)) (put_plaintext W h o1 p)"
  using assms(2) by (auto simp: keeps_def writes_only_def put_plaintext_def Let_def ws_upd_cases ldb_get_put [OF assms(1)])

lemma save_outputs_writes:
  assumes "ldb_ok (eLdb (wEnv W)) view"
    and "\<And>o1 p. o1 \<in> set os \<Longrightarrow> BelongsToMe (whash W) (eCurve (wEnv W)) o1 (TrackingKey priv) = Ok True
      \<Longrightarrow> opOutput p = Some o1 \<Longrightarrow> (i = 0 \<longrightarrow> opAmount p = coinbase)
      \<Longrightarrow> M (sum_bytes (output_hash (wEnv W) o1)) (encOP W (p\<lparr>opTime := timeString W (bhTime h), opHeight := bhSeqNum h\<rparr>))"
  shows "keeps (writes_only (eLdb (wEnv W), M)) (save_outputs W h coinbase i priv os)"
  using assms(2)
proof (induction os)
  case (Cons o1 os)
  then have IH: "keeps (writes_only (eLdb (wEnv W), M)) (save_outputs W h coinbase i priv os)" by simp
  have put: "keeps (writes_only (eLdb (wEnv W), M)) (go_bind (put_plaintext W h o1 p) (\<lambda>u. save_outputs W h coinbase i priv os))"
    if "plaintext_of W i coinbase priv o1 = Ok (Some p)"
      "BelongsToMe (whash W) (eCurve (wEnv W)) o1 (TrackingKey priv) = Ok True" for p
    using plaintext_of_output [OF that(1)] that(2) Cons.prems
    by (intro txn_writes.keeps_bind IH put_plaintext_writes [OF assms(1)]) simp
  show ?case
    by (auto simp: go_bind_const IH put txn_writes.keeps_intros split: res.splits option.splits)
qed (simp add: txn_writes.keeps_intros)

lemma save_privs_writes:
  assumes "ldb_ok (eLdb (wEnv W)) view"
    and "\<And>o1 p priv. o1 \<in> set (tbOutputs (txBody txn)) \<Longrightarrow> priv \<in> set privs
      \<Longrightarrow> BelongsToMe (whash W) (eCurve (wEnv W)) o1 (TrackingKey priv) = Ok True
      \<Longrightarrow> opOutput p = Some o1 \<Longrightarrow> (i = 0 \<longrightarrow> opAmount p = coinbase)
      \<Longrightarrow> M (sum_bytes (output_hash (wEnv W) o1)) (encOP W (p\<lparr>opTime := timeString W (bhTime h), opHeight := bhSeqNum h\<rparr>))"
  shows "keeps (writes_only (eLdb (wEnv W), M)) (save_privs W h coinbase i txn privs)"
  using assms(2)
proof (induction privs)
  case (Cons priv privs)
  have "keeps (writes_only (eLdb (wEnv W), M)) (save_outputs W h coinbase i priv (tbOutputs (txBody txn)))"
    by (intro save_outputs_writes [OF assms(1)] Cons.prems) simp_all
  moreover have "keeps (writes_only (eLdb (wEnv W), M)) (save_privs W h coinbase i txn privs)"
    by (intro Cons.IH Cons.prems) simp_all
  ultimately show ?case by (simp add: txn_writes.keeps_bind)
qed (simp add: txn_writes.keeps_intros)

lemma save_txns_writes:
  assumes "ldb_ok (eLdb (wEnv W)) view"
  shows "(\<And>k v. mine_entry W h coinbase privs j txns k v \<Longrightarrow> M k v)
    \<Longrightarrow> keeps (writes_only (eLdb (wEnv W), M)) (save_txns W h coinbase privs j txns)"
proof (induction txns arbitrary: j)
  case (Cons txn txns)
  have "keeps (writes_only (eLdb (wEnv W), M)) (save_privs W h coinbase j txn privs)"
  proof (intro save_privs_writes [OF assms] Cons.prems)
    fix o1 and p :: OutputPlaintext and priv
    assume "o1 \<in> set (tbOutputs (txBody txn))" "priv \<in> set privs" "opOutput p = Some o1" "j = 0 \<longrightarrow> opAmount p = coinbase"
      "BelongsToMe (whash W) (eCurve (wEnv W)) o1 (TrackingKey priv) = Ok True"
    then show "mine_entry W h coinbase privs j (txn # txns) (sum_bytes (output_hash (wEnv W) o1))
        (encOP W (p\<lparr>opTime := timeString W (bhTime h), opHeight := bhSeqNum h\<rparr>))"
      unfolding mine_entry_def by (intro exI [of _ 0] exI [of _ "p\<lparr>opTime := timeString W (bhTime h), opHeight := bhSeqNum h\<rparr>"] conjI bexI) auto
  qed
  moreover have "keeps (writes_only (eLdb (wEnv W), M)) (save_txns W h coinbase privs (Suc j) txns)"
  proof (intro Cons.IH Cons.prems)
    fix k v
    assume "mine_entry W h coinbase privs (Suc j) txns k v"
    then obtain i where "i < length txns" "\<exists>o1 \<in> set (tbOutputs (txBody (txns ! i))). \<exists>priv \<in> set privs. \<exists>p.
        BelongsToMe (whash W) (eCurve (wEnv W)) o1 (TrackingKey priv) = Ok True \<and> k = sum_bytes (output_hash (wEnv W) o1)
        \<and> v = encOP W p \<and> opOutput p = Some o1 \<and> opTime p = timeString W (bhTime h) \<and> opHeight p = bhSeqNum h"
      unfolding mine_entry_def by blast
    then show "mine_entry W h coinbase privs j (txn # txns) k v"
      unfolding mine_entry_def by (intro exI [of _ "Suc i"]) auto
  qed
  ultimately show ?case by (simp add: txn_writes.keeps_bind)
qed (simp add: txn_writes.keeps_intros)

definition block_reward :: "Block \<Rightarrow> u64" where
  "block_reward b = CoinbaseValue (bhSeqNum (bkHeader b)) + (\<Sum>t \<leftarrow> bkTxns b. tbFee (txBody t))"

lemma saveMyTxns_writes:
  assumes "ldb_ok (eLdb (wEnv W)) view"
  shows "ldbGet (eLdb (wEnv W)) (txnDB (snd (saveMyTxns W b ws))) k = ldbGet (eLdb (wEnv W)) (txnDB ws) k
    \<or> (\<exists>v. ldbGet (eLdb (wEnv W)) (txnDB (snd (saveMyTxns W b ws))) k = Inr (Some v)
         \<and> mine_entry W (bkHeader b) (block_reward b) (Privs ws) 0 (bkTxns b) k v)"
proof -
  have "foldl (\<lambda>c t. c + tbFee (txBody t)) c ts = c + (\<Sum>t \<leftarrow> ts. tbFee (txBody t))" for c and ts :: "Txn list"
    by (induction ts arbitrary: c) simp_all
  then have "saveMyTxns W b ws = save_txns W (bkHeader b) (block_reward b) (Privs ws) 0 (bkTxns b) ws"
    by (simp add: saveMyTxns_def block_reward_def)
  moreover have "keeps (writes_only (eLdb (wEnv W), mine_entry W (bkHeader b) (block_reward b) (Privs ws) 0 (bkTxns b)))
      (save_txns W (bkHeader b) (block_reward b) (Privs ws) 0 (bkTxns b))"
    by (rule save_txns_writes [OF assms])
  ultimately show ?thesis by (simp add: keeps_def writes_only_def)
qed

lemma delete_outputs_effect:
  assumes "ldb_ok (eLdb (wEnv W)) view"
  shows "delete_outputs W os ws = (Ok u, ws') \<Longrightarrow>
    ldbGet (eLdb (wEnv W)) (txnDB ws') k = (if k \<in> (\<lambda>o1. sum_bytes (output_hash (wEnv W) o1)) ` set os then Inl ErrNotFound
      else ldbGet (eLdb (wEnv W)) (txnDB ws) k)"
  by (induction os arbitrary: ws) (auto simp: go_bind_eq_Ok ws_upd_eq_Ok ldb_get_delete [OF assms])

section \<open>Random outputs\<close>

lemma scan_outputs_mismatch:
  assumes "sum_bytes (output_hash E o1) \<noteq> pimgHash"
  shows "scan_outputs E pimgHash (o1 # os) (o1 # os) outputs = None"
proof -
  have "scan_outputs E pimgHash (o1 # os) (o1 # os) outputs = Some y \<Longrightarrow> False" for y
    by (rule scan_outputs.raw_induct [where P = "\<lambda>E k all rest acc y. all = o1 # os \<and> rest = o1 # os
        \<and> sum_bytes (output_hash E o1) \<noteq> k \<longrightarrow> False", rule_format])
      (use assms in \<open>auto split: if_splits\<close>)
  then show ?thesis by (cases "scan_outputs E pimgHash (o1 # os) (o1 # os) outputs") auto
qed

lemma scan_outputs_single:
  "sum_bytes (output_hash E o1) = pimgHash \<Longrightarrow>
    scan_outputs E pimgHash [o1] [o1] outputs = Some (outputs @ [o1], length outputs = 7)"
  by (subst scan_outputs.simps) (auto simp: TXN_NUM_INPUTS_def scan_outputs.simps [of E pimgHash "[o1]" "[]"])

text \<open>An entry of the map that leads to a block whose only transaction has only the output of that entry.\<close>

definition lone_entry :: "'d env \<Rightarrow> 'd Client \<Rightarrow> bytes \<times> bytes \<Rightarrow> Output \<Rightarrow> bool" where
  "lone_entry E c kv o1 \<longleftrightarrow> length (fst kv) = 32 \<and> length (snd kv) = 32 \<and> sum_bytes (output_hash E o1) = fst kv
     \<and> (\<exists>h t. FindBlock E c (bytes_sum (snd kv)) = Ok (Some \<lparr>bkHeader = h, bkTxns = [t]\<rparr>) \<and> tbOutputs (txBody t) = [o1])"

lemma scan_entries_lone:
  "list_all2 (lone_entry E c) kvs os \<Longrightarrow> length acc < 8 \<Longrightarrow>
    scan_entries E c kvs acc =
      Some (if 8 \<le> length acc + length os then Ok (take 8 (acc @ os)) else Err (ErrMsg ''Not enough txns found''))"
proof (induction kvs os arbitrary: acc rule: list_all2_induct)
  case (Cons kv kvs o1 os)
  from Cons.hyps(1) obtain h t where kv: "length (fst kv) = 32" "length (snd kv) = 32" "sum_bytes (output_hash E o1) = fst kv"
    "FindBlock E c (bytes_sum (snd kv)) = Ok (Some \<lparr>bkHeader = h, bkTxns = [t]\<rparr>)" "tbOutputs (txBody t) = [o1]"
    by (auto simp: lone_entry_def)
  have "scan_entries E c (kv # kvs) acc =
      (if length acc = 7 then Some (Ok (acc @ [o1])) else scan_entries E c kvs (acc @ [o1]))"
    using kv by (cases kv) (simp add: scan_outputs_single)
  with Cons.IH [of "acc @ [o1]"] Cons.prems show ?case by auto
qed simp

text \<open>
  When every entry of the map is of that kind, as in a chain of coinbase transactions, \<^verbatim>\<open>RandomOutputs\<close> returns the outputs
  of the first eight entries, or an error if there are fewer.
\<close>

lemma RandomOutputs_lone:
  "list_all2 (lone_entry E c) (ldbIter (eLdb E) (mapDB (dbm c))) os \<Longrightarrow>
    RandomOutputs E c = Some (if 8 \<le> length os then Ok (take 8 os) else Err (ErrMsg ''Not enough txns found''))"
  using scan_entries_lone [of E c _ os "[]"] by (simp add: RandomOutputs_def)

end
