(* ===== verification/WalletSrv.thy ===== *)
theory WalletSrv
  imports WalletFunds
begin

text \<open>
  The wallet server of \<^verbatim>\<open>wallet-server.go\<close>, last part: signing, the handlers that change what the
  wallet keeps, the routes, and the properties of the server.
\<close>

section \<open>Signing\<close>

definition sign_plan :: "'d wenv \<Rightarrow> SignMsg \<Rightarrow> OutputPlaintext \<Rightarrow> WalletPrivateKey \<Rightarrow> 'd WalletServer
    \<Rightarrow> (Output \<times> int \<times> int \<times> u64 list \<times> WalletPublicKey list) res" where
  "sign_plan W req fundingTxn priv ws =
     res_bind (deref (opOutput fundingTxn)) (\<lambda>o1.
     res_bind (ComputeTxnPrivateKey (whash W) (eCurve (wEnv W)) o1 priv) (\<lambda>sk.
     res_bind (ComputeBlindingFactor (whash W) (eCurve (wEnv W)) o1 priv) (\<lambda>yi.
       let total = smAmount req + smFee req
       in if total = opAmount fundingTxn then Ok (o1, sk, yi, [smAmount req], [smAddress req])
          else res_bind (at (Privs ws) 0) (\<lambda>p0.
            Ok (o1, sk, yi, [smAmount req, opAmount fundingTxn - total], [smAddress req, PrivateKey_PublicKey p0])))))"

text \<open>The part of \<^verbatim>\<open>handleSign\<close> after the token check and the refresh.\<close>

definition sign_body :: "'d wenv \<Rightarrow> request \<Rightarrow> 'd WalletServer \<Rightarrow> (resp res \<times> 'd WalletServer) option" where
  "sign_body W r ws =
     (let E = wEnv W in
      case bodySign W (rqBody r) of
        Inl e \<Rightarrow> Some (Ok (HttpError 400 e), ws)
      | Inr req \<Rightarrow>
          if ECCPoint_Empty (PPK (smAddress req)) \<or> ECCPoint_Empty (TPK (smAddress req)) then Some (Panic, ws)
          else if smAmount req \<ge> push_bit RANGE_PROOF_LENGTH 1 then Some (Panic, ws)
          else (case findFundingTxn W (smAmount req + smFee req) ws of
              Err e \<Rightarrow> Some (Err e, ws)
            | Panic \<Rightarrow> Some (Panic, ws)
            | Ok None \<Rightarrow> Some (Ok (HttpError 422 (ErrMsg ''Cannot find funding txn'')), ws)
            | Ok (Some (fundingTxn, priv)) \<Rightarrow>
                (case RandomOutputs E (wsClient ws) of
                   None \<Rightarrow> None
                 | Some (Err e) \<Rightarrow> Some (Ok (HttpError 500 e), ws)
                 | Some Panic \<Rightarrow> Some (Panic, ws)
                 | Some (Ok inputs) \<Rightarrow>
                     (case sign_plan W req fundingTxn priv ws of
                        Err e \<Rightarrow> Some (Err e, ws)
                      | Panic \<Rightarrow> Some (Panic, ws)
                      | Ok (o1, sk, yi, amts, rcpts) \<Rightarrow>
                          if inputs = [] then Some (Panic, ws)
                          else (case NewTxn (eHash E) (eCurve E) (encO E) (encB E) (Some (inputs[0 := o1])) sk yi 0 (Some amts)
                                     (Some rcpts) (smFee req) (rndOut W) (rndK1 W) (rndK2 W) (rndR W) (rndS W) of
                              None \<Rightarrow> None
                            | Some (Ok (Some txn)) \<Rightarrow> Some (Ok (TxnResp txn), ws\<lparr>wsTxnChan := wsTxnChan ws @ [txn]\<rparr>)
                            | Some (Err e) \<Rightarrow> Some (Err e, ws)
                            | Some _ \<Rightarrow> Some (Panic, ws))))))"

definition handleSign :: "'d wenv \<Rightarrow> request \<Rightarrow> 'd WalletServer \<Rightarrow> (resp res \<times> 'd WalletServer) option" where
  "handleSign W r ws =
     (case authorise W r ws of
        (Ok None, ws') \<Rightarrow> sign_body W r ws'
      | (Ok (Some resp), ws') \<Rightarrow> Some (Ok resp, ws')
      | (Err e, ws') \<Rightarrow> Some (Err e, ws')
      | (Panic, ws') \<Rightarrow> Some (Panic, ws'))"

section \<open>New and deleted blocks\<close>

definition handleNewBlock :: "'d wenv \<Rightarrow> request \<Rightarrow> ('d WalletServer, resp) go" where
  "handleNewBlock W r = authorised W r
     (case bodyBlock W (rqBody r) of
        Inl e \<Rightarrow> go_ret (HttpError 400 e)
      | Inr block \<Rightarrow> go_try (saveMyTxns W block) (\<lambda>u. go_ret Accepted) (\<lambda>e. go_ret (HttpError 500 e)))"

definition handleDeleteBlock :: "'d wenv \<Rightarrow> request \<Rightarrow> ('d WalletServer, resp) go" where
  "handleDeleteBlock W r = authorised W r
     (case bodyBlock W (rqBody r) of
        Inl e \<Rightarrow> go_ret (HttpError 400 e)
      | Inr block \<Rightarrow> go_try (deleteTxns W block) (\<lambda>u. go_ret Accepted) (\<lambda>e. go_ret (HttpError 500 e)))"

text \<open>The routes that \<^verbatim>\<open>NewWalletServer\<close> registers.\<close>

definition serve :: "'d wenv \<Rightarrow> string \<Rightarrow> request \<Rightarrow> 'd WalletServer \<Rightarrow> (resp res \<times> 'd WalletServer) option" where
  "serve W path r ws =
     (if path = ''/open'' then Some (handleOpen W r ws)
      else if path = ''/tracking'' then Some (handleTracking W r ws)
      else if path = ''/balance'' then Some (handleBalance W r ws)
      else if path = ''/sign'' then handleSign W r ws
      else if path = ''/new-block'' then Some (handleNewBlock W r ws)
      else if path = ''/delete-block'' then Some (handleDeleteBlock W r ws)
      else Some (Ok (HttpError 404 (ErrMsg ''404 page not found'')), ws))"

section \<open>Requests without the token\<close>

lemma handleSign_denied:
  "authenticateToken W r ws \<noteq> Ok None \<Longrightarrow> \<exists>q. handleSign W r ws = Some (q, ws) \<and> denial q"
  by (erule authorise_denied) (auto simp: handleSign_def denial_def)

lemma serve_denied:
  assumes "authenticateToken W r ws \<noteq> Ok None" "path \<noteq> ''/open''"
  shows "\<exists>q. serve W path r ws = Some (q, ws) \<and> denial q"
proof -
  have d: "\<exists>q. Some (authorised W r body ws) = Some (q, ws) \<and> denial q" for body
    using authorised_denied [OF assms(1)] by simp
  show ?thesis
    unfolding serve_def handleBalance_def handleTracking_def handleNewBlock_def handleDeleteBlock_def
    using assms(2) d handleSign_denied [OF assms(1)] by (auto simp: denial_def)
qed

section \<open>A concrete wallet\<close>

definition demo_wenv :: "(bytes \<times> bytes) list wenv" where
  "demo_wenv = \<lparr>wEnv = demo_env, encPriv = codec_enc, decPriv = codec_dec, encPub = codec_enc, encOP = codec_enc,
     decOP = codec_dec, bodyPassword = Inr, bodySign = (\<lambda>bs. Inl ErrUnmarshal), bodyBlock = codec_dec,
     timeString = (\<lambda>t. ''now''), rndCreate = (\<lambda>i. Some (of_nat (Suc i))), rndOut = (\<lambda>i. demo_draws), rndK1 = 21, rndK2 = 22,
     rndR = of_nat, rndS = of_nat\<rparr>"

definition demo_priv :: WalletPrivateKey where
  "demo_priv = \<lparr>prTrack = \<lparr>trPub = \<lparr>TPK = pt (cBase log_curve (int_be 3)), PPK = pt (cBase log_curve (int_be 4))\<rparr>,
     TSK = Some 3\<rparr>, PSK = Some 4\<rparr>"

definition mine_output :: Output where
  "mine_output = \<lparr>oPublicKey = pt (cBase log_curve (int_be 5)),
     oDestKey = pt (cAdd log_curve (cBase log_curve (sum_bytes 7)) (cBase log_curve (int_be 4))),
     oBlindSeed = pt (0, 0), oCommit = \<lparr>cmPt = pt (0, 0), cmProof = zero_proof\<rparr>\<rparr>"

definition mine_block :: Block where
  "mine_block = \<lparr>bkHeader = demo_header,
     bkTxns = [\<lparr>txBody = \<lparr>tbInputs = [0], tbOutputs = [mine_output], tbFee = 0\<rparr>, txSig = zero_sig\<rparr>]\<rparr>"

definition demo_wallet :: "(bytes \<times> bytes) list WalletServer" where
  "demo_wallet = \<lparr>wsClient = demo_client, wsAddress = [],
     authDB = [(SALT_KEY, []), (PASSWORD_KEY, sum_bytes 8), (TOKEN_KEY, sum_bytes 9)],
     privDB = [(sum_bytes 7, codec_enc demo_priv)], txnDB = [], Privs = [demo_priv],
     Outputs = [\<lparr>opOutput = Some mine_output, opHashPub = [], opTime = [], opAmount = 10, opHeight = 0\<rparr>], wsTxnChan = []\<rparr>"

lemma demo_wenv_simps [simp]:
  "wEnv demo_wenv = demo_env" "decPriv demo_wenv = codec_dec" "encPriv demo_wenv = codec_enc"
  "decOP demo_wenv = codec_dec" "encOP demo_wenv = codec_enc" "eHash demo_env = (\<lambda>bs. 7)" "eCurve demo_env = log_curve"
  "eLdb demo_env = alist_db"
  by (simp_all add: demo_wenv_def demo_env_def)

lemma wenv_ok_demo_wenv [simp]: "wenv_ok demo_wenv"
  by (simp add: wenv_ok_def)

lemma ldb_reliable_alist_db [simp]: "ldb_reliable alist_db"
  by (simp add: ldb_reliable_def alist_db_def)

lemma mine_output_belongs [simp]: "BelongsToMe (\<lambda>bs. 7) log_curve mine_output (TrackingKey demo_priv) = Ok True"
  by (simp add: BelongsToMe_def HashSharedSecret_def mine_output_def TrackingKey_def demo_priv_def)

lemma mine_output_key: "oPublicKey mine_output = pt (cBase log_curve (int_be 5))"
  by (simp add: mine_output_def)

section \<open>Properties\<close>

text \<open>
  C28: Any password opens the wallet.  When the stored password does not match, \<^verbatim>\<open>Open\<close> creates new
  credentials over the stored ones, so a caller with a wrong password gets a token that every other handler accepts,
  and from then on his password is the one that matches; the wallet's keys and outputs stay.
\<close>

theorem any_password_opens:
  assumes "wenv_ok W" "ldb_reliable (eLdb (wEnv W))" "\<And>i. i < 4 \<Longrightarrow> \<exists>r. rndCreate W i = Some r"
    and "fst (Refresh W ws) = Ok ()" "AuthenicatePassword W password ws \<noteq> Panic"
  shows "\<exists>t ws'. Open W password ws = (Ok t, ws') \<and> AuthenicatePassword W password ws' = Ok t
    \<and> (\<forall>body. authenticateToken W \<lparr>rqCookie = Some (b64_enc (sum_bytes t)), rqBody = body\<rparr> ws' = Ok None)
    \<and> txnDB ws' = txnDB ws
    \<and> (\<forall>k v. ldbGet (eLdb (wEnv W)) (privDB ws) k = Inr v \<and> \<not> new_priv_key W k
         \<longrightarrow> ldbGet (eLdb (wEnv W)) (privDB ws') k = Inr v)"
proof -
  obtain view where view: "ldb_ok (eLdb (wEnv W)) view" using assms(1) by (auto simp: wenv_ok_def env_ok_def)
  obtain t1 ws1 where c: "Create W password ws = (Ok t1, ws1)" "txnDB ws1 = txnDB ws"
    "\<And>k v. ldbGet (eLdb (wEnv W)) (privDB ws) k = Inr v \<Longrightarrow> \<not> new_priv_key W k \<Longrightarrow> ldbGet (eLdb (wEnv W)) (privDB ws1) k = Inr v"
    using Create_total [OF assms(1-4)] by metis
  obtain ws2 where r: "Refresh W ws = (Ok (), ws2)" using assms(4) by (metis prod.collapse)
  have same: "authDB ws2 = authDB ws" "privDB ws2 = privDB ws" "txnDB ws2 = txnDB ws"
    using Refresh_frame [of W ws] r by simp_all
  consider t where "AuthenicatePassword W password ws = Ok t" "t \<noteq> 0" "Open W password ws = (Ok t, ws2)"
    | "Open W password ws = (Ok t1, ws1)"
  proof (cases "AuthenicatePassword W password ws")
    case (Ok t)
    with that c(1) r show thesis by (cases "t = 0") (auto simp: Open_def go_try_read go_bind_apply)
  qed (use that assms(5) c(1) in \<open>auto simp: Open_def go_try_read\<close>)
  then show ?thesis
  proof cases
    case (1 t)
    then have "AuthenicatePassword W password ws2 = Ok t" unfolding AuthenicatePassword_def same by simp
    with 1(3) same show ?thesis
      by (intro exI [of _ t] exI [of _ ws2] conjI allI token_cookie_accepted [OF view 1(3)]) auto
  next
    case 2
    with c(2,3) show ?thesis
      by (intro exI [of _ t1] exI [of _ ws1] conjI allI token_cookie_accepted [OF view 2] Create_authenticates [OF view c(1)]) auto
  qed
qed

theorem any_password_opens_witness:
  "AuthenicatePassword demo_wenv [1] demo_wallet = Err (ErrMsg ''Authentication unsucessful'')
   \<and> (\<exists>t ws'. Open demo_wenv [1] demo_wallet = (Ok t, ws') \<and> AuthenicatePassword demo_wenv [1] ws' = Ok t)"
proof
  have ne: "sum_bytes 8 \<noteq> sum_bytes (7 :: SHA256Sum)" by simp
  have mism: "length bs = length hs \<Longrightarrow> bs \<noteq> hs \<Longrightarrow> check_hash bs hs = Some (Err (ErrMsg ''Authentication unsucessful''))" for bs hs
    by (induction bs hs rule: list_induct2) auto
  show a: "AuthenicatePassword demo_wenv [1] demo_wallet = Err (ErrMsg ''Authentication unsucessful'')"
    using mism [OF _ ne] by (simp add: AuthenicatePassword_def demo_wallet_def db_get_def alist_db_def slice_def)
  have "fst (Refresh demo_wenv demo_wallet) = Ok ()"
    by (simp add: Refresh_def go_bind_apply demo_wallet_def alist_db_def of_sum_def)
  moreover have "\<And>i. i < 4 \<Longrightarrow> \<exists>r. rndCreate demo_wenv i = Some r" by (simp add: demo_wenv_def)
  ultimately show "\<exists>t ws'. Open demo_wenv [1] demo_wallet = (Ok t, ws') \<and> AuthenicatePassword demo_wenv [1] ws' = Ok t"
    using any_password_opens [of demo_wenv demo_wallet "[1]"] a by auto
qed

text \<open>
  C16: Without the token nothing changes and nothing is told: a request to any path but \<^verbatim>\<open>/open\<close> that changes
  the wallet, or is answered with anything but an error, carries in its cookie the base64 text of the stored token's
  first 32 bytes.
\<close>

theorem only_token_holders:
  assumes "serve W path r ws = Some (q, ws')" "path \<noteq> ''/open''" "ws' \<noteq> ws \<or> \<not> denial q"
  shows "\<exists>cookie stored. rqCookie r = Some cookie \<and> wget W (authDB ws) TOKEN_KEY = Ok stored \<and> 32 \<le> length (slice stored)
    \<and> b64_dec cookie = Some (take 32 (slice stored))"
proof -
  have "authenticateToken W r ws = Ok None"
    using serve_denied [of W r ws path] assms by auto
  then obtain cookie token stored where "rqCookie r = Some cookie" "b64_dec cookie = Some token" "length token = 32"
    "wget W (authDB ws) TOKEN_KEY = Ok stored" "token = take 32 (slice stored)"
    unfolding authenticateToken_iff by blast
  then show ?thesis by (intro exI [of _ cookie] exI [of _ stored]) auto
qed

theorem only_token_holders_witness:
  "serve demo_wenv ''/tracking'' \<lparr>rqCookie = Some (b64_enc (sum_bytes 9)), rqBody = []\<rparr> demo_wallet
     = Some (Ok (TrackingResp [TrackingKey demo_priv]), demo_wallet\<lparr>Outputs := []\<rparr>)
   \<and> b64_dec (b64_enc (sum_bytes 9)) = Some (take 32 (sum_bytes 9))"
proof -
  let ?r = "\<lparr>rqCookie = Some (b64_enc (sum_bytes 9)), rqBody = []\<rparr>"
  have tok: "wget demo_wenv (authDB demo_wallet) TOKEN_KEY = Ok (Some (sum_bytes 9))"
    by (simp add: demo_wallet_def db_get_def alist_db_def)
  then have auth: "authenticateToken demo_wenv ?r demo_wallet = Ok None"
    unfolding authenticateToken_iff by (auto simp: slice_def)
  have ref: "Refresh demo_wenv demo_wallet = (Ok (), demo_wallet\<lparr>Outputs := []\<rparr>)"
    by (simp add: Refresh_def go_bind_apply demo_wallet_def alist_db_def of_sum_def)
  have s: "serve demo_wenv ''/tracking'' ?r demo_wallet
      = Some (Ok (TrackingResp [TrackingKey demo_priv]), demo_wallet\<lparr>Outputs := []\<rparr>)"
    unfolding serve_def handleTracking_def authorised_def authorise_def
    using auth ref by (simp add: go_bind_apply go_try_apply) (simp add: demo_wallet_def)
  from only_token_holders [OF s] tok show ?thesis by (simp add: s denial_def slice_def)
qed

text \<open>
  C27: The funding output is the smallest that suffices: when \<^verbatim>\<open>findFundingTxn\<close> finds one, it is one of the
  wallet's outputs, it covers the amount, no other output that covers it is smaller, and it belongs to one of the
  wallet's keys.  The key returned with it, however, is the last key of the wallet, whichever key owns it.
\<close>

theorem funding_output_minimal:
  assumes "findFundingTxn W amount ws = Ok (Some (txn, sk))"
  shows "txn \<in> set (Outputs ws) \<and> amount \<le> opAmount txn
    \<and> (\<forall>t \<in> set (Outputs ws). amount \<le> opAmount t \<longrightarrow> opAmount txn \<le> opAmount t)
    \<and> (\<exists>priv \<in> set (Privs ws). \<exists>o1. opOutput txn = Some o1
         \<and> BelongsToMe (whash W) (eCurve (wEnv W)) o1 (TrackingKey priv) = Ok True)
    \<and> sk = last (Privs ws)"
  using funding_loop_inv [OF findFundingTxn_loop [OF assms]] by (auto dest: owner_ptr_Some)

theorem funding_output_minimal_witness:
  "findFundingTxn demo_wenv 5 (demo_wallet\<lparr>Privs := [demo_priv, demo_priv\<lparr>PSK := Some 5\<rparr>]\<rparr>)
     = Ok (Some (hd (Outputs demo_wallet), demo_priv\<lparr>PSK := Some 5\<rparr>))
   \<and> BelongsToMe (whash demo_wenv) log_curve mine_output (TrackingKey demo_priv) = Ok True
   \<and> demo_priv\<lparr>PSK := Some 5\<rparr> = last [demo_priv, demo_priv\<lparr>PSK := Some 5\<rparr>]"
proof -
  have "BelongsToMe (\<lambda>bs. 7) log_curve mine_output (TrackingKey (demo_priv\<lparr>PSK := Some 5\<rparr>)) = Ok True"
    using mine_output_belongs by (simp add: TrackingKey_def)
  then have f: "findFundingTxn demo_wenv 5 (demo_wallet\<lparr>Privs := [demo_priv, demo_priv\<lparr>PSK := Some 5\<rparr>]\<rparr>)
     = Ok (Some (hd (Outputs demo_wallet), demo_priv\<lparr>PSK := Some 5\<rparr>))"
    by (simp add: findFundingTxn_def owner_ptr_def demo_wallet_def)
  from funding_output_minimal [OF this] f show ?thesis by simp
qed

lemma mine_entry_key:
  "mine_entry W h coinbase privs 0 (bkTxns b) k v \<Longrightarrow>
    k \<in> (\<lambda>o1. sum_bytes (output_hash (wEnv W) o1)) ` set (concat (map (\<lambda>txn. tbOutputs (txBody txn)) (bkTxns b)))"
  unfolding mine_entry_def by force

text \<open>
  C17: The wallet keeps its own outputs of a block and forgets them again: \<^verbatim>\<open>saveMyTxns\<close> changes the output
  database only at the hashes of outputs of the block that belong to one of the wallet's keys, storing a record of that
  very output with the block's time and height, and for the coinbase the reward plus all fees; and a
  \<^verbatim>\<open>deleteTxns\<close> of the same block that succeeds leaves the database without the block's outputs and
  otherwise as it was before, however the saving ended.
\<close>

theorem save_then_delete:
  assumes "env_ok (wEnv W)" "saveMyTxns W b ws = (q, ws1)" "deleteTxns W b ws1 = (Ok (), ws2)"
  shows "(ldbGet (eLdb (wEnv W)) (txnDB ws1) k = ldbGet (eLdb (wEnv W)) (txnDB ws) k
      \<or> (\<exists>v. ldbGet (eLdb (wEnv W)) (txnDB ws1) k = Inr (Some v)
           \<and> mine_entry W (bkHeader b) (block_reward b) (Privs ws) 0 (bkTxns b) k v))
    \<and> ldbGet (eLdb (wEnv W)) (txnDB ws2) k =
        (if k \<in> (\<lambda>o1. sum_bytes (output_hash (wEnv W) o1)) ` set (concat (map (\<lambda>txn. tbOutputs (txBody txn)) (bkTxns b)))
         then Inl ErrNotFound else ldbGet (eLdb (wEnv W)) (txnDB ws) k)"
proof -
  obtain view where view: "ldb_ok (eLdb (wEnv W)) view" using assms(1) by (auto simp: env_ok_def)
  have s: "ldbGet (eLdb (wEnv W)) (txnDB ws1) k = ldbGet (eLdb (wEnv W)) (txnDB ws) k
      \<or> (\<exists>v. ldbGet (eLdb (wEnv W)) (txnDB ws1) k = Inr (Some v)
           \<and> mine_entry W (bkHeader b) (block_reward b) (Privs ws) 0 (bkTxns b) k v)"
    using saveMyTxns_writes [OF view, of b ws k] by (simp add: assms(2))
  with delete_outputs_effect [OF view assms(3) [unfolded deleteTxns_def], of k] mine_entry_key [of W _ _ _ b k]
  show ?thesis by auto
qed

theorem save_then_delete_witness:
  "\<exists>p. ldbGet alist_db (txnDB (snd (saveMyTxns demo_wenv mine_block demo_wallet))) (sum_bytes 7) = Inr (Some (encOP demo_wenv p))
     \<and> opOutput p = Some mine_output \<and> opAmount p = CoinbaseValue 0
     \<and> ldbGet alist_db (txnDB (snd (deleteTxns demo_wenv mine_block (snd (saveMyTxns demo_wenv mine_block demo_wallet))))) (sum_bytes 7)
       = Inl ErrNotFound"
proof -
  let ?ws = "demo_wallet" and ?b = "mine_block" and ?ws1 = "snd (saveMyTxns demo_wenv mine_block demo_wallet)"
  have d: "deleteTxns demo_wenv ?b ?ws1 = (Ok (), snd (deleteTxns demo_wenv ?b ?ws1))"
    by (simp add: deleteTxns_def mine_block_def go_bind_apply ws_upd_cases alist_db_def)
  note r = save_then_delete [OF _ surjective_pairing d, where k = "sum_bytes 7"]
  have h: "output_hash demo_env mine_output = 7" by (simp add: Output_Hash_def)
  have "ldbGet alist_db (txnDB ?ws1) (sum_bytes 7) \<noteq> ldbGet alist_db (txnDB ?ws) (sum_bytes 7)"
    using h mine_output_key by (simp add: saveMyTxns_def mine_block_def demo_wallet_def plaintext_of_def DecryptCoinbase_def pub_hash_def
        put_plaintext_def go_bind_apply ws_upd_cases alist_db_def Let_def)
  with r obtain v where v: "ldbGet alist_db (txnDB ?ws1) (sum_bytes 7) = Inr (Some v)"
    "mine_entry demo_wenv (bkHeader ?b) (block_reward ?b) (Privs ?ws) 0 (bkTxns ?b) (sum_bytes 7) v" by auto
  moreover have "block_reward ?b = CoinbaseValue 0" by (simp add: block_reward_def mine_block_def demo_header_def)
  ultimately obtain p where "v = encOP demo_wenv p" "opOutput p = Some mine_output" "opAmount p = CoinbaseValue 0"
    unfolding mine_entry_def by (auto simp: mine_block_def)
  with v(1) r h show ?thesis by (intro exI [of _ p]) (auto simp: mine_block_def)
qed

definition skipped_entry :: "'d env \<Rightarrow> 'd Client \<Rightarrow> bytes \<times> bytes \<Rightarrow> bool" where
  "skipped_entry E c kv \<longleftrightarrow> length (fst kv) \<noteq> 32 \<or> length (snd kv) \<noteq> 32 \<or> (\<exists>e. FindBlock E c (bytes_sum (snd kv)) = Err e)"

lemma scan_entries_skip:
  "(\<And>kv. kv \<in> set pre \<Longrightarrow> skipped_entry E c kv) \<Longrightarrow> scan_entries E c (pre @ kvs) outputs = scan_entries E c kvs outputs"
proof (induction pre)
  case (Cons kv pre)
  then have "skipped_entry E c kv" "scan_entries E c (pre @ kvs) outputs = scan_entries E c kvs outputs" by auto
  then show ?case by (cases kv) (auto simp: skipped_entry_def)
qed simp

text \<open>
  C35: \<^verbatim>\<open>RandomOutputs\<close> never returns when the first usable entry of the map does not stand for the first output
  of its block, for example when it stands for a preimage or for a later output: the \<^verbatim>\<open>goto\<close> starts the loop
  over the outputs again, at the same output.
\<close>

theorem random_outputs_diverges:
  assumes "ldbIter (eLdb E) (mapDB (dbm c)) = pre @ (k, v) # kvs" "\<And>kv. kv \<in> set pre \<Longrightarrow> skipped_entry E c kv"
    and "length k = 32" "length v = 32" "FindBlock E c (bytes_sum v) = Ok (Some b)"
    and "bkTxns b = t # ts" "tbOutputs (txBody t) = o1 # os" "sum_bytes (output_hash E o1) \<noteq> k"
  shows "RandomOutputs E c = None"
proof -
  have "scan_txns E k (bkTxns b) [] = None"
    using scan_outputs_mismatch [OF assms(8)] assms(6,7) by simp
  with assms(1,3-5) show ?thesis by (simp add: RandomOutputs_def scan_entries_skip [OF assms(2)])
qed

theorem random_outputs_diverges_witness:
  "RandomOutputs demo_env (demo_stored\<lparr>dbm := (dbm demo_stored)\<lparr>mapDB := [([], []), (sum_bytes 8, sum_bytes 7)]\<rparr>\<rparr>) = None"
proof (rule random_outputs_diverges [where pre = "[([], [])]" and k = "sum_bytes 8" and v = "sum_bytes 7" and kvs = "[]"
      and b = demo_block and t = demo_coinbase and ts = "[]" and ?o1.0 = demo_output and os = "[]"])
  let ?c = "demo_stored\<lparr>dbm := (dbm demo_stored)\<lparr>mapDB := [([], []), (sum_bytes 8, sum_bytes 7)]\<rparr>\<rparr>"
  have "[] \<noteq> sum_bytes 8" using length_sum_bytes [of 8] by fastforce
  then show "ldbIter (eLdb demo_env) (mapDB (dbm ?c)) = [([], [])] @ (sum_bytes 8, sum_bytes 7) # []"
    by (simp add: alist_db_def)
  have "GetBlock demo_env ?c 7 = GetBlock demo_env demo_stored 7" by (simp add: GetBlock_def)
  then show "FindBlock demo_env ?c (bytes_sum (sum_bytes 7)) = Ok (Some demo_block)"
    by (simp add: FindBlock_def LoadBlock_def)
qed (simp_all add: skipped_entry_def demo_block_def demo_coinbase_def Output_Hash_def)

end
