(* ===== verification/WalletCli.thy ===== *)
theory WalletCli
  imports WalletSrv
begin

text \<open>
  \<^verbatim>\<open>wallet-client.go\<close> over the model of the server, and the start of \<^verbatim>\<open>wallet-server.go\<close>, which
  ends by opening its own wallet through that client.  What HTTP does is the record \<open>wire\<close>.
\<close>

section \<open>The client\<close>

record WalletClient =
  wcAddress :: bytes
  WalletToken :: SHA256Sum
  wcKeys :: "WalletTrackingKey list"
  wcOutputs :: "OutputPlaintext list"

text \<open>
  A failure to send a request, a failure to read its response, the body a response is written as (JSON, or the
  error's text), and the JSON of the messages.
\<close>

record wire =
  wrSend :: "gerr option"
  wrRead :: "gerr option"
  wrBody :: "resp \<Rightarrow> bytes"
  encPassword :: "bytes \<Rightarrow> bytes"
  encSignMsg :: "SignMsg \<Rightarrow> bytes"
  decToken :: "bytes \<Rightarrow> gerr + SHA256Sum"
  decTracking :: "bytes \<Rightarrow> gerr + WalletTrackingKey list"
  decBalance :: "bytes \<Rightarrow> gerr + BalanceMsg"
  decTxn :: "bytes \<Rightarrow> gerr + Txn"

definition MarshalToken :: "WalletClient \<Rightarrow> string" where
  "MarshalToken wc = b64_enc (sum_bytes (WalletToken wc))"

definition MarshalPassword :: "wire \<Rightarrow> bytes \<Rightarrow> bytes res" where
  "MarshalPassword N password = Ok (encPassword N password)"

text \<open>
  A handler that panics closes the connection.  The status of a response is not looked at.  The
  outer \<open>None\<close> is a handler that never returns.
\<close>

definition POST :: "wire \<Rightarrow> 'd wenv \<Rightarrow> WalletClient \<Rightarrow> string \<Rightarrow> bytes \<Rightarrow> 'd WalletServer \<Rightarrow> (bytes res \<times> 'd WalletServer) option" where
  "POST N W wc relativeUrl data ws =
     (case wrSend N of
        Some e \<Rightarrow> Some (Err e, ws)
      | None \<Rightarrow>
          (let cookie = (if relativeUrl \<noteq> ''/open'' then Some (MarshalToken wc) else None)
           in case serve W relativeUrl \<lparr>rqCookie = cookie, rqBody = data\<rparr> ws of
                None \<Rightarrow> None
              | Some (Ok resp, ws') \<Rightarrow>
                  (case wrRead N of Some e \<Rightarrow> Some (Err e, ws') | None \<Rightarrow> Some (Ok (wrBody N resp), ws'))
              | Some (_, ws') \<Rightarrow> Some (Err ErrNet, ws')))"

text \<open>A request whose response is decoded.\<close>

definition call :: "wire \<Rightarrow> 'd wenv \<Rightarrow> WalletClient \<Rightarrow> string \<Rightarrow> bytes \<Rightarrow> (bytes \<Rightarrow> gerr + 'a) \<Rightarrow> 'd WalletServer
    \<Rightarrow> ('a res \<times> 'd WalletServer) option" where
  "call N W wc url data dec ws =
     map_option (\<lambda>(r, ws'). (res_bind r (\<lambda>bytes. of_sum (dec bytes)), ws')) (POST N W wc url data ws)"

definition OpenWallet :: "wire \<Rightarrow> 'd wenv \<Rightarrow> bytes \<Rightarrow> WalletClient \<Rightarrow> 'd WalletServer
    \<Rightarrow> (unit res \<times> WalletClient \<times> 'd WalletServer) option" where
  "OpenWallet N W password wc ws =
     (case MarshalPassword N password of
        Ok serializedPassword \<Rightarrow>
          (case call N W wc ''/open'' serializedPassword (decToken N) ws of
             None \<Rightarrow> None
           | Some (Ok token, ws') \<Rightarrow> Some (Ok (), wc\<lparr>WalletToken := token\<rparr>, ws')
           | Some (Err e, ws') \<Rightarrow> Some (Err e, wc, ws')
           | Some (Panic, ws') \<Rightarrow> Some (Panic, wc, ws'))
      | Err e \<Rightarrow> Some (Err e, wc, ws)
      | Panic \<Rightarrow> Some (Panic, wc, ws))"

definition TrackingKeys :: "wire \<Rightarrow> 'd wenv \<Rightarrow> WalletClient \<Rightarrow> 'd WalletServer \<Rightarrow> (WalletTrackingKey list res \<times> 'd WalletServer) option" where
  "TrackingKeys N W wc = call N W wc ''/tracking'' [] (decTracking N)"

definition WalletClient_NewBlock :: "wire \<Rightarrow> 'd wenv \<Rightarrow> WalletClient \<Rightarrow> Block \<Rightarrow> 'd WalletServer \<Rightarrow> (unit res \<times> 'd WalletServer) option" where
  "WalletClient_NewBlock N W wc b =
     (\<lambda>ws. map_option (\<lambda>(r, ws'). (res_bind r (\<lambda>_. Ok ()), ws')) (POST N W wc ''/new-block'' (encBk (wEnv W) b) ws))"

definition DeleteBlock :: "wire \<Rightarrow> 'd wenv \<Rightarrow> WalletClient \<Rightarrow> Block \<Rightarrow> 'd WalletServer \<Rightarrow> (unit res \<times> 'd WalletServer) option" where
  "DeleteBlock N W wc b =
     (\<lambda>ws. map_option (\<lambda>(r, ws'). (res_bind r (\<lambda>_. Ok ()), ws')) (POST N W wc ''/delete-block'' (encBk (wEnv W) b) ws))"

definition SignTxn :: "wire \<Rightarrow> 'd wenv \<Rightarrow> WalletClient \<Rightarrow> WalletPublicKey option \<Rightarrow> u64 \<Rightarrow> u64 \<Rightarrow> 'd WalletServer
    \<Rightarrow> (Txn res \<times> 'd WalletServer) option" where
  "SignTxn N W wc addr amt fee ws =
     (case addr of
        None \<Rightarrow> Some (Panic, ws)
      | Some a \<Rightarrow> call N W wc ''/sign'' (encSignMsg N \<lparr>smAddress = a, smAmount = amt, smFee = fee\<rparr>) (decTxn N) ws)"

definition Balance :: "wire \<Rightarrow> 'd wenv \<Rightarrow> WalletClient \<Rightarrow> 'd WalletServer \<Rightarrow> (BalanceMsg res \<times> 'd WalletServer) option" where
  "Balance N W wc = call N W wc ''/balance'' [] (decBalance N)"

section \<open>Starting the server\<close>

definition OpenAuthDB :: "(string \<Rightarrow> gerr + 'd) \<Rightarrow> 'd res" where
  "OpenAuthDB openf = open_db openf ''db/wallet-auth.db''"

definition OpenPrivDB :: "(string \<Rightarrow> gerr + 'd) \<Rightarrow> 'd res" where
  "OpenPrivDB openf = open_db openf ''db/wallet-priv.db''"

definition OpenTxnDB :: "(string \<Rightarrow> gerr + 'd) \<Rightarrow> 'd res" where
  "OpenTxnDB openf = open_db openf ''db/wallet-txn.db''"

text \<open>The goroutine that greets the miner with the hash of no block five seconds later.\<close>

definition hello :: "'d env \<Rightarrow> ('d Client, unit) go" where
  "hello E = go_try (BcastBlock E 0) (\<lambda>u. go_ret ()) (\<lambda>e. go_panic)"

text \<open>
  The server and the client it opens itself with; the outer \<open>None\<close> does not occur, as \<^verbatim>\<open>/open\<close>
  always returns.
\<close>

definition NewWalletServer :: "(string \<Rightarrow> gerr + 'd) \<Rightarrow> (bytes \<Rightarrow> gerr option) \<Rightarrow> wire \<Rightarrow> 'd wenv \<Rightarrow> bytes \<Rightarrow> bytes \<Rightarrow> bytes \<Rightarrow> bytes
    \<Rightarrow> ('d WalletServer \<times> WalletClient) res option" where
  "NewWalletServer openf listen N W miningAddress svpAddress walletAddress password =
     (case res_bind (NewSPV openf listen svpAddress) (\<lambda>c.
             case PutPeer (wEnv W) miningAddress c of
               (Ok u, c') \<Rightarrow>
                 res_bind (OpenAuthDB openf) (\<lambda>a. res_bind (OpenPrivDB openf) (\<lambda>p. res_bind (OpenTxnDB openf) (\<lambda>t.
                   Ok \<lparr>wsClient = c', wsAddress = walletAddress, authDB = a, privDB = p, txnDB = t, Privs = [], Outputs = [],
                       wsTxnChan = []\<rparr>)))
             | _ \<Rightarrow> Panic) of
        Ok ws \<Rightarrow>
          (case OpenWallet N W password \<lparr>wcAddress = walletAddress, WalletToken = 0, wcKeys = [], wcOutputs = []\<rparr> ws of
             None \<Rightarrow> None
           | Some (Ok u, wc, ws') \<Rightarrow> Some (Ok (ws', wc))
           | Some (_, wc, ws') \<Rightarrow> Some Panic)
      | Err e \<Rightarrow> Some (Err e)
      | Panic \<Rightarrow> Some Panic)"

section \<open>What HTTP and JSON promise\<close>

text \<open>A response that is written as JSON is read back; the text of an error is not a JSON message.\<close>

definition wire_ok :: "wire \<Rightarrow> bool" where
  "wire_ok N \<longleftrightarrow>
     (\<forall>t. decToken N (wrBody N (TokenResp t)) = Inr t) \<and> (\<forall>ks. decTracking N (wrBody N (TrackingResp ks)) = Inr ks)
   \<and> (\<forall>b. decBalance N (wrBody N (BalanceResp b)) = Inr b) \<and> (\<forall>t. decTxn N (wrBody N (TxnResp t)) = Inr t)
   \<and> (\<forall>n e. decToken N (wrBody N (HttpError n e)) = Inl ErrUnmarshal \<and> decTracking N (wrBody N (HttpError n e)) = Inl ErrUnmarshal
        \<and> decBalance N (wrBody N (HttpError n e)) = Inl ErrUnmarshal \<and> decTxn N (wrBody N (HttpError n e)) = Inl ErrUnmarshal)"

lemma of_sum_eq_Ok: "of_sum r = Ok a \<longleftrightarrow> r = Inr a"
  by (cases r) (simp_all add: of_sum_def)

lemma handleOpen_resp:
  "handleOpen W r ws = (Ok resp, ws') \<Longrightarrow> (\<exists>n e. resp = HttpError n e)
     \<or> (\<exists>password t. bodyPassword W (rqBody r) = Inr password \<and> Open W password ws = (Ok t, ws') \<and> resp = TokenResp t)"
  by (cases "bodyPassword W (rqBody r)") (auto simp: handleOpen_def go_try_apply split: prod.splits res.splits if_splits)

lemma OpenWallet_Ok:
  assumes "wire_ok N" "OpenWallet N W password wc ws = Some (Ok u, wc', ws')"
  obtains pw t where "Open W pw ws = (Ok t, ws')" "wc' = wc\<lparr>WalletToken := t\<rparr>" "wrSend N = None" "wrRead N = None"
proof -
  from assms(2) obtain t bytes where t: "POST N W wc ''/open'' (encPassword N password) ws = Some (Ok bytes, ws')"
    "decToken N bytes = Inr t" "wc' = wc\<lparr>WalletToken := t\<rparr>"
    by (auto simp: OpenWallet_def MarshalPassword_def call_def res_bind_eq_Ok of_sum_eq_Ok split: option.splits res.splits)
  then obtain resp where r: "handleOpen W \<lparr>rqCookie = None, rqBody = encPassword N password\<rparr> ws = (Ok resp, ws')"
    "bytes = wrBody N resp" "wrSend N = None" "wrRead N = None"
    by (auto simp: POST_def serve_def Let_def split: option.splits res.splits prod.splits)
  from handleOpen_resp [OF r(1)] show thesis
  proof (elim disjE exE conjE)
    fix n e assume "resp = HttpError n e"
    with t(2) r(2) assms(1) show thesis by (simp add: wire_ok_def)
  next
    fix pw t' assume "Open W pw ws = (Ok t', ws')" "resp = TokenResp t'"
    with t r assms(1) show thesis by (intro that [of pw t]) (auto simp: wire_ok_def)
  qed
qed

lemma Refresh_again: "Refresh W ws = (Ok u, ws') \<Longrightarrow> Refresh W ws' = (Ok u, ws')"
  by (auto simp: Refresh_eq_Ok)

lemma Create_refreshes: "Create W password ws = (Ok t, ws') \<Longrightarrow> Refresh W ws' = (Ok (), ws')"
  by (auto simp: Create_def Let_def go_bind_eq_Ok dest: Refresh_again)

lemma Open_refreshed: "Open W password ws = (Ok t, ws') \<Longrightarrow> Refresh W ws' = (Ok (), ws')"
  using Create_refreshes [of W password ws t ws']
  by (auto simp: Open_def go_try_read go_bind_eq_Ok split: res.splits if_splits dest: Refresh_again)

lemma authorised_open:
  "authenticateToken W r ws = Ok None \<Longrightarrow> Refresh W ws = (Ok (), ws) \<Longrightarrow> authorised W r body ws = body ws"
  by (simp add: authorised_def authorise_def go_bind_apply go_try_apply)

section \<open>A concrete wire\<close>

instance gerr :: countable
  by countable_datatype

instance BalanceMsg_ext :: (countable) countable
  by (rule countable_classI [of "\<lambda>r. to_nat (bmBalance r, bmOutputs r, BalanceMsg.more r)"])
    (auto intro: BalanceMsg.equality)

instance resp :: countable
  by countable_datatype

definition demo_wire :: wire where
  "demo_wire = \<lparr>wrSend = None, wrRead = None, wrBody = codec_enc, encPassword = (\<lambda>bs. bs), encSignMsg = (\<lambda>m. []),
     decToken = (\<lambda>bs. case codec_dec bs of Inr (TokenResp t) \<Rightarrow> Inr t | _ \<Rightarrow> Inl ErrUnmarshal),
     decTracking = (\<lambda>bs. case codec_dec bs of Inr (TrackingResp ks) \<Rightarrow> Inr ks | _ \<Rightarrow> Inl ErrUnmarshal),
     decBalance = (\<lambda>bs. case codec_dec bs of Inr (BalanceResp b) \<Rightarrow> Inr b | _ \<Rightarrow> Inl ErrUnmarshal),
     decTxn = (\<lambda>bs. case codec_dec bs of Inr (TxnResp t) \<Rightarrow> Inr t | _ \<Rightarrow> Inl ErrUnmarshal)\<rparr>"

lemma wire_ok_demo_wire [simp]: "wire_ok demo_wire"
  by (simp add: wire_ok_def demo_wire_def)

lemma demo_wire_up: "wrSend demo_wire = None" "wrRead demo_wire = None"
  by (simp_all add: demo_wire_def)

lemma demo_wenv_password: "bodyPassword demo_wenv = Inr"
  by (simp add: demo_wenv_def)

section \<open>Properties\<close>

text \<open>
  C26: A wallet that has been opened answers its client: after a successful \<^verbatim>\<open>OpenWallet\<close> the cookie of every
  further request passes the token check, \<^verbatim>\<open>TrackingKeys\<close> returns the tracking keys of exactly the server's
  private keys (or an error if there are none), and \<^verbatim>\<open>Balance\<close> the sum of its outputs' amounts modulo
  \<open>2^64\<close>, neither changing the server.
\<close>

theorem opened_wallet_answers:
  assumes "wenv_ok W" "wire_ok N" "OpenWallet N W password wc ws = Some (Ok (), wc', ws')"
  shows "(\<forall>body. authenticateToken W \<lparr>rqCookie = Some (MarshalToken wc'), rqBody = body\<rparr> ws' = Ok None)
    \<and> TrackingKeys N W wc' ws' =
        Some (if Privs ws' = [] then Err ErrUnmarshal else Ok (map TrackingKey (Privs ws')), ws')
    \<and> Balance N W wc' ws' =
        Some (Ok \<lparr>bmBalance = (\<Sum>o1 \<leftarrow> Outputs ws'. opAmount o1), bmOutputs = map light (Outputs ws')\<rparr>, ws')"
proof -
  obtain view where view: "ldb_ok (eLdb (wEnv W)) view" using assms(1) by (auto simp: wenv_ok_def env_ok_def)
  obtain pw t where o1: "Open W pw ws = (Ok t, ws')" "wc' = wc\<lparr>WalletToken := t\<rparr>" and up: "wrSend N = None" "wrRead N = None"
    using OpenWallet_Ok [OF assms(2,3)] .
  have auth: "authenticateToken W \<lparr>rqCookie = Some (MarshalToken wc'), rqBody = body\<rparr> ws' = Ok None" for body
    by (rule token_cookie_accepted [OF view o1(1)]) (simp add: MarshalToken_def o1(2))
  note run = authorised_open [OF auth Open_refreshed [OF o1(1)]]
  have sum: "foldl (\<lambda>b o1. b + opAmount o1) b os = b + (\<Sum>o1 \<leftarrow> os. opAmount o1)" for b and os :: "OutputPlaintext list"
    by (induction os arbitrary: b) simp_all
  show ?thesis
    using assms(2) unfolding wire_ok_def
    by (auto simp: auth TrackingKeys_def Balance_def call_def POST_def serve_def handleTracking_def handleBalance_def run up
        of_sum_def sum)
qed

theorem opened_wallet_answers_witness:
  "\<exists>ws'. OpenWallet demo_wire demo_wenv [1] \<lparr>wcAddress = [], WalletToken = 0, wcKeys = [], wcOutputs = []\<rparr>
       (demo_wallet\<lparr>authDB := [(SALT_KEY, []), (PASSWORD_KEY, sum_bytes 7), (TOKEN_KEY, sum_bytes 9)]\<rparr>)
       = Some (Ok (), \<lparr>wcAddress = [], WalletToken = 9, wcKeys = [], wcOutputs = []\<rparr>, ws')
     \<and> TrackingKeys demo_wire demo_wenv \<lparr>wcAddress = [], WalletToken = 9, wcKeys = [], wcOutputs = []\<rparr> ws'
       = Some (Ok [TrackingKey demo_priv], ws')"
proof -
  let ?ws = "demo_wallet\<lparr>authDB := [(SALT_KEY, []), (PASSWORD_KEY, sum_bytes 7), (TOKEN_KEY, sum_bytes 9)]\<rparr>"
    and ?wc = "\<lparr>wcAddress = [], WalletToken = 0, wcKeys = [], wcOutputs = []\<rparr>" and ?ws' = "\<lambda>ws. ws\<lparr>Outputs := []\<rparr>"
  have a: "AuthenicatePassword demo_wenv [1] ?ws = Ok 9"
    by (simp add: AuthenicatePassword_def db_get_def alist_db_def slice_def check_hash_self)
  have r: "Refresh demo_wenv ?ws = (Ok (), ?ws' ?ws)"
    by (simp add: Refresh_def go_bind_apply demo_wallet_def alist_db_def of_sum_def)
  have "Open demo_wenv [1] ?ws = (Ok 9, ?ws' ?ws)"
    using a r by (simp add: Open_def go_try_apply go_bind_apply)
  then have "handleOpen demo_wenv \<lparr>rqCookie = None, rqBody = encPassword demo_wire [1]\<rparr> ?ws = (Ok (TokenResp 9), ?ws' ?ws)"
    by (simp add: handleOpen_def go_try_apply demo_wenv_password demo_wire_def)
  then have p: "POST demo_wire demo_wenv ?wc ''/open'' (encPassword demo_wire [1]) ?ws = Some (Ok (wrBody demo_wire (TokenResp 9)), ?ws' ?ws)"
    by (simp add: POST_def serve_def demo_wire_up)
  have o1: "OpenWallet demo_wire demo_wenv [1] ?wc ?ws = Some (Ok (), ?wc\<lparr>WalletToken := 9\<rparr>, ?ws' ?ws)"
    using p wire_ok_demo_wire by (simp add: OpenWallet_def MarshalPassword_def call_def wire_ok_def of_sum_def)
  from opened_wallet_answers [OF wenv_ok_demo_wenv wire_ok_demo_wire this] o1 show ?thesis
    by (intro exI [of _ "?ws' ?ws"]) (simp add: demo_wallet_def)
qed

text \<open>
  C40: The client does not notice a refusal: when the server denies its token, \<^verbatim>\<open>NewBlock\<close> and
  \<^verbatim>\<open>DeleteBlock\<close> report success, because the status of the response is ignored, and the server has kept
  or removed nothing.
\<close>

theorem refusal_unnoticed:
  assumes "authenticateToken W \<lparr>rqCookie = Some (MarshalToken wc), rqBody = encBk (wEnv W) b\<rparr> ws = Ok (Some denied)"
    and "wrSend N = None" "wrRead N = None"
  shows "WalletClient_NewBlock N W wc b ws = Some (Ok (), ws) \<and> DeleteBlock N W wc b ws = Some (Ok (), ws)"
  using assms
  by (simp add: WalletClient_NewBlock_def DeleteBlock_def POST_def serve_def handleNewBlock_def handleDeleteBlock_def
      authorised_def authorise_def go_bind_apply)

theorem refusal_unnoticed_witness:
  "WalletClient_NewBlock demo_wire demo_wenv \<lparr>wcAddress = [], WalletToken = 0, wcKeys = [], wcOutputs = []\<rparr> mine_block demo_wallet
   = Some (Ok (), demo_wallet)"
proof -
  let ?r = "\<lparr>rqCookie = Some (MarshalToken \<lparr>wcAddress = [], WalletToken = 0, wcKeys = [], wcOutputs = []\<rparr>),
    rqBody = encBk (wEnv demo_wenv) mine_block\<rparr>"
  have mism: "length bs = length ts \<Longrightarrow> bs \<noteq> ts \<Longrightarrow> check_token bs ts = Err (ErrMsg ''Invalid token'')" for bs ts
    by (induction bs ts rule: list_induct2) auto
  have "sum_bytes 0 \<noteq> sum_bytes 9" by simp
  with mism [of "sum_bytes 0" "sum_bytes 9"]
  have "authenticateToken demo_wenv ?r demo_wallet = Ok (Some (HttpError 401 (ErrMsg ''Invalid token'')))"
    by (simp add: authenticateToken_def MarshalToken_def demo_wallet_def db_get_def alist_db_def slice_def)
  from refusal_unnoticed [OF this demo_wire_up] show ?thesis by simp
qed

end
