(* ===== verification/Miner.thy ===== *)
theory Miner
  imports WalletCli
begin

text \<open>
  \<^verbatim>\<open>miner.go\<close>: a full node that mines on its head.  Its loop selects between a tick every
  30 seconds and one attempt at the proof of work; the client it shares changes in between.
\<close>

section \<open>State and steps\<close>

text \<open>What is sent on the client's \<^verbatim>\<open>BlockChan\<close> is \<open>mnSent\<close>; \<open>mnRecent\<close> is \<^verbatim>\<open>recentlyUpdated\<close>.\<close>

record 'd Miner =
  mnClient :: "'d Client"
  mnWallet :: WalletClient
  mnAddress :: WalletPublicKey
  mnBlock :: Block
  mnLast :: SHA256Sum
  mnRecent :: bool
  mnSent :: "Block list"

definition bump_nonce :: "Block \<Rightarrow> Block" where
  "bump_nonce b = b\<lparr>bkHeader := (bkHeader b)\<lparr>bhNonce := bhNonce (bkHeader b) + 1\<rparr>\<rparr>"

text \<open>The first half of the default case: a new block when the head has moved, the next nonce otherwise.\<close>

definition next_candidate :: "'d env \<Rightarrow> SHA256Sum \<Rightarrow> ('d Miner, unit) go" where
  "next_candidate E r = (\<lambda>m.
     let c = mnClient m; head = header_hash E (LastHeader c)
     in if mnLast m \<noteq> head
        then (case NewBlock E c (LastHeader c) (mnAddress m) (eNow E) r of
                Ok b \<Rightarrow> (Ok (), m\<lparr>mnLast := head, mnBlock := b, mnRecent := True\<rparr>)
              | Err e \<Rightarrow> (Err e, m\<lparr>mnLast := head\<rparr>)
              | Panic \<Rightarrow> (Panic, m\<lparr>mnLast := head\<rparr>))
        else (Ok (), m\<lparr>mnBlock := bump_nonce (mnBlock m)\<rparr>))"

text \<open>The default case.\<close>

definition try_nonce :: "'d env \<Rightarrow> SHA256Sum \<Rightarrow> ('d Miner, unit) go" where
  "try_nonce E r =
     go_bind (next_candidate E r) (\<lambda>u.
     go_bind (go_read (\<lambda>m. ValidPoW (eHash E) (encH E) (bkHeader (mnBlock m)))) (\<lambda>ok.
       if \<not> ok then go_ret () else go_modify (\<lambda>m. m\<lparr>mnSent := mnSent m @ [mnBlock m]\<rparr>)))"

text \<open>The tick, up to the request to the wallet: a block that is not recent gets a new time and difficulty.\<close>

definition refresh_time :: "'d env \<Rightarrow> go_time \<Rightarrow> ('d Miner, unit) go" where
  "refresh_time E now = (\<lambda>m.
     if mnRecent m then (Ok (), m\<lparr>mnRecent := False\<rparr>)
     else let b = (mnBlock m)\<lparr>bkHeader := (bkHeader (mnBlock m))\<lparr>bhTime := now\<rparr>\<rparr>
       in (case ComputeDifficulty E (mnClient m) b of
             Ok d \<Rightarrow> (Ok (), m\<lparr>mnBlock := b\<lparr>bkHeader := (bkHeader b)\<lparr>bhDifficulty := d\<rparr>\<rparr>, mnRecent := False\<rparr>)
           | Err e \<Rightarrow> (Err e, m\<lparr>mnBlock := b\<rparr>)
           | Panic \<Rightarrow> (Panic, m\<lparr>mnBlock := b\<rparr>)))"

text \<open>
  The whole tick: the wallet is asked to sign a payment of 1 with a fee of 1 to the miner itself, and the loop waits for
  the answer, which is only logged.
\<close>

definition tick :: "'d env \<Rightarrow> wire \<Rightarrow> 'd wenv \<Rightarrow> go_time \<Rightarrow> 'd WalletServer \<Rightarrow> 'd Miner
    \<Rightarrow> ((unit res \<times> 'd Miner) \<times> 'd WalletServer) option" where
  "tick E N W now ws m =
     (case refresh_time E now m of
        (Ok u, m') \<Rightarrow> map_option (\<lambda>(signed, ws'). ((Ok (), m'), ws')) (SignTxn N W (mnWallet m) (Some (mnAddress m)) 1 1 ws)
      | (q, m') \<Rightarrow> Some ((q, m'), ws))"

section \<open>Starting a miner\<close>

text \<open>
  \<^verbatim>\<open>run\<close> up to its loop.  \<open>r0\<close> and \<open>r1\<close> are the draws of the genesis block and of the first block to
  mine; the outer \<open>None\<close> is a genesis block for which no nonce is found.
\<close>

definition miner_start :: "'d env \<Rightarrow> wire \<Rightarrow> 'd wenv \<Rightarrow> SHA256Sum \<Rightarrow> SHA256Sum \<Rightarrow> WalletClient \<Rightarrow> 'd Client \<Rightarrow> 'd WalletServer
    \<Rightarrow> ('d Miner res \<times> 'd WalletServer) option" where
  "miner_start E N W r0 r1 wc c ws =
     (case TrackingKeys N W wc ws of
        None \<Rightarrow> None
      | Some (Ok (a # addresses), ws') \<Rightarrow>
          (let miningAddress = TrackingKey_PublicKey a
           in case GenesisBlock (eHash E) (eCurve E) (encT E) (encH E) (eNow E) miningAddress r0 of
                None \<Rightarrow> None
              | Some (Ok gblock) \<Rightarrow>
                  (case WriteBlock E gblock c of
                     (Ok u, c') \<Rightarrow>
                       (let c'' = c'\<lparr>LastHeader := bkHeader gblock\<rparr>
                        in Some (res_bind (NewBlock E c'' (bkHeader gblock) miningAddress (eNow E) r1) (\<lambda>b.
                             Ok \<lparr>mnClient = c'', mnWallet = wc, mnAddress = miningAddress, mnBlock = b,
                                 mnLast = header_hash E (bkHeader gblock), mnRecent = False, mnSent = []\<rparr>), ws'))
                   | _ \<Rightarrow> Some (Panic, ws'))
              | Some _ \<Rightarrow> Some (Panic, ws'))
      | Some (_, ws') \<Rightarrow> Some (Panic, ws'))"

definition NewMiner :: "(string \<Rightarrow> gerr + 'd) \<Rightarrow> (bytes \<Rightarrow> gerr option) \<Rightarrow> wire \<Rightarrow> 'd wenv \<Rightarrow> bytes \<Rightarrow> bytes \<Rightarrow> bytes
    \<Rightarrow> 'd WalletServer \<Rightarrow> (('d Client \<times> WalletClient) res \<times> 'd WalletServer) option" where
  "NewMiner openf listen N W miningAddr walletAddr password ws =
     (case NewBlockchain openf listen miningAddr of
        Ok c \<Rightarrow>
          (case OpenWallet N W password \<lparr>wcAddress = walletAddr, WalletToken = 0, wcKeys = [], wcOutputs = []\<rparr> ws of
             None \<Rightarrow> None
           | Some (Ok u, wc, ws') \<Rightarrow> Some (Ok (c, wc), ws')
           | Some (_, wc, ws') \<Rightarrow> Some (Panic, ws'))
      | Err e \<Rightarrow> Some (Err e, ws)
      | Panic \<Rightarrow> Some (Panic, ws))"

section \<open>Runs of the loop\<close>

text \<open>Attempts and ticks in environments that differ in peers and time, with any work of the client in between.\<close>

inductive miner_step :: "'d env \<Rightarrow> 'd Miner \<Rightarrow> 'd Miner \<Rightarrow> bool" for E where
  attempt: "env_like E E' \<Longrightarrow> try_nonce E' r m = (Ok (), m') \<Longrightarrow> miner_step E m m'"
| ticked: "env_like E E' \<Longrightarrow> refresh_time E' now m = (Ok (), m') \<Longrightarrow> miner_step E m m'"
| client: "miner_step E m (m\<lparr>mnClient := c\<rparr>)"

inductive_cases miner_stepE: "miner_step E m m'"

section \<open>Every block on offer was built on a head\<close>

text \<open>A block with the content \<^verbatim>\<open>NewBlock\<close> gave it: only time, difficulty and nonce have been changed since.\<close>

definition mined_from :: "'d env \<Rightarrow> WalletPublicKey \<Rightarrow> Block \<Rightarrow> bool" where
  "mined_from E address b \<longleftrightarrow>
     (\<exists>E' c prev now r b0. env_like E E' \<and> NewBlock E' c prev address now r = Ok b0 \<and> bkTxns b = bkTxns b0
        \<and> bhSeqNum (bkHeader b) = bhSeqNum (bkHeader b0) \<and> bhPrevHash (bkHeader b) = bhPrevHash (bkHeader b0)
        \<and> bhMerkleRoot (bkHeader b) = bhMerkleRoot (bkHeader b0))"

definition miner_inv :: "'d env \<Rightarrow> 'd Miner \<Rightarrow> bool" where
  "miner_inv E m \<longleftrightarrow> mined_from E (mnAddress m) (mnBlock m)
     \<and> (\<forall>b \<in> set (mnSent m). mined_from E (mnAddress m) b \<and> ValidPoW (eHash E) (encH E) (bkHeader b) = Ok True)"

lemma mined_from_header:
  "mined_from E a b \<Longrightarrow> bkTxns b' = bkTxns b \<Longrightarrow> bhSeqNum (bkHeader b') = bhSeqNum (bkHeader b)
    \<Longrightarrow> bhPrevHash (bkHeader b') = bhPrevHash (bkHeader b) \<Longrightarrow> bhMerkleRoot (bkHeader b') = bhMerkleRoot (bkHeader b)
    \<Longrightarrow> mined_from E a b'"
  by (simp add: mined_from_def)

lemma mined_from_new: "env_like E E' \<Longrightarrow> NewBlock E' c prev a now r = Ok b \<Longrightarrow> mined_from E a b"
  unfolding mined_from_def by blast

lemma next_candidate_Ok:
  assumes "next_candidate E' r m = (Ok u, m')" "env_like E E'" "mined_from E (mnAddress m) (mnBlock m)"
  shows "mined_from E (mnAddress m) (mnBlock m') \<and> mnSent m' = mnSent m \<and> mnAddress m' = mnAddress m \<and> mnClient m' = mnClient m"
  using assms by (auto simp: next_candidate_def Let_def bump_nonce_def split: if_splits res.splits
      intro: mined_from_new elim: mined_from_header)

lemma try_nonce_inv:
  assumes "try_nonce E' r m = (Ok u, m')" "env_like E E'" "miner_inv E m"
  shows "miner_inv E m' \<and> mnAddress m' = mnAddress m"
proof -
  obtain v m1 where n: "next_candidate E' r m = (Ok v, m1)"
    using assms(1) by (auto simp: try_nonce_def go_bind_eq_Ok)
  note c = next_candidate_Ok [OF n assms(2)]
  have E: "eHash E' = eHash E" "encH E' = encH E" using assms(2) by (simp_all add: env_like_def)
  show ?thesis
    using assms(1,3) n c by (auto simp: try_nonce_def go_bind_eq_Ok go_bind_read E miner_inv_def split: if_splits res.splits)
qed

lemma refresh_time_inv:
  "refresh_time E' now m = (Ok u, m') \<Longrightarrow> miner_inv E m \<Longrightarrow> miner_inv E m' \<and> mnAddress m' = mnAddress m"
  by (auto simp: refresh_time_def Let_def miner_inv_def split: if_splits res.splits elim!: mined_from_header)

lemma miner_step_inv: "miner_step E m m' \<Longrightarrow> miner_inv E m \<Longrightarrow> miner_inv E m' \<and> mnAddress m' = mnAddress m"
  by (erule miner_stepE) (auto simp: miner_inv_def [of E "m\<lparr>mnClient := _\<rparr>"] miner_inv_def dest!: try_nonce_inv refresh_time_inv)

lemma miner_steps_inv: "(miner_step E)\<^sup>*\<^sup>* m m' \<Longrightarrow> miner_inv E m \<Longrightarrow> miner_inv E m' \<and> mnAddress m' = mnAddress m"
  by (induction rule: rtranclp_induct) (auto dest: miner_step_inv)

lemma miner_start_inv:
  assumes "miner_start E N W r0 r1 wc c ws = Some (Ok m, ws')"
  shows "miner_inv E m"
proof -
  have "env_like E E" by (simp add: env_like_def)
  with assms show ?thesis
    by (auto simp: miner_start_def miner_inv_def Let_def res_bind_eq_Ok split: option.splits res.splits list.splits prod.splits
        intro: mined_from_new)
qed

lemma mined_from_fields:
  assumes "mined_from E a b"
  shows "(\<exists>prev. bhSeqNum (bkHeader b) = bhSeqNum prev + 1 \<and> bhPrevHash (bkHeader b) = header_hash E prev)
    \<and> VerifyMerkleHash (eHash E) (encT E) b"
proof -
  obtain E' c prev now r b0 where b0: "env_like E E'" "NewBlock E' c prev a now r = Ok b0" "bkTxns b = bkTxns b0"
    "bhSeqNum (bkHeader b) = bhSeqNum (bkHeader b0)" "bhPrevHash (bkHeader b) = bhPrevHash (bkHeader b0)"
    "bhMerkleRoot (bkHeader b) = bhMerkleRoot (bkHeader b0)"
    using assms unfolding mined_from_def by blast
  have E: "eHash E' = eHash E" "encH E' = encH E" "encT E' = encT E" using b0(1) by (simp_all add: env_like_def)
  have "bhSeqNum (bkHeader b0) = bhSeqNum prev + 1" "bhPrevHash (bkHeader b0) = header_hash E prev"
    "bhMerkleRoot (bkHeader b0) = MerkleHash (eHash E) (encT E) b0"
    using b0(2) by (auto simp: NewBlock_def Let_def res_bind_eq_Ok E MerkleHash_def)
  moreover have "MerkleHash (eHash E) (encT E) b = MerkleHash (eHash E) (encT E) b0" by (simp add: MerkleHash_def b0(3))
  ultimately show ?thesis using b0 by (auto simp: VerifyMerkleHash_def)
qed

section \<open>Trying one nonce after the other\<close>

definition with_nonce :: "Block \<Rightarrow> nat \<Rightarrow> Block" where
  "with_nonce b k = b\<lparr>bkHeader := (bkHeader b)\<lparr>bhNonce := bhNonce (bkHeader b) + of_nat k\<rparr>\<rparr>"

lemma bump_with_nonce: "bump_nonce (with_nonce b k) = with_nonce b (Suc k)"
  by (simp add: bump_nonce_def with_nonce_def)

lemma try_nonce_same_head:
  "mnLast m = header_hash E (LastHeader (mnClient m)) \<Longrightarrow>
    ValidPoW (eHash E) (encH E) (bkHeader (bump_nonce (mnBlock m))) = Ok ok \<Longrightarrow>
    try_nonce E r m = (Ok (), m\<lparr>mnBlock := bump_nonce (mnBlock m),
      mnSent := mnSent m @ (if ok then [bump_nonce (mnBlock m)] else [])\<rparr>)"
  by (simp add: try_nonce_def next_candidate_def go_bind_apply)

lemma failed_attempts:
  assumes "mnLast m = header_hash E (LastHeader (mnClient m))"
  shows "(\<And>i. i < j \<Longrightarrow> ValidPoW (eHash E) (encH E) (bkHeader (with_nonce (mnBlock m) (Suc i))) = Ok False)
    \<Longrightarrow> ((\<lambda>m. snd (try_nonce E r m)) ^^ j) m = m\<lparr>mnBlock := with_nonce (mnBlock m) j\<rparr>"
proof (induction j)
  case 0
  then show ?case by (simp add: with_nonce_def)
next
  case (Suc j)
  let ?m = "m\<lparr>mnBlock := with_nonce (mnBlock m) j\<rparr>"
  have IH: "((\<lambda>m. snd (try_nonce E r m)) ^^ j) m = ?m" using Suc by simp
  have "try_nonce E r ?m = (Ok (), m\<lparr>mnBlock := with_nonce (mnBlock m) (Suc j)\<rparr>)"
    using try_nonce_same_head [of ?m E False r] assms Suc.prems [of j] by (simp add: bump_with_nonce)
  with IH show ?case by simp
qed

section \<open>Properties\<close>

text \<open>
  C15: What a miner sends to its node is mined: in any run of its loop, with ticks, changes of the head and any other work of
  the client in between, every block sent has a valid proof of work, a Merkle root that matches its transactions, and
  the height and parent hash of a successor of some header that was the client's head.
\<close>

theorem sent_blocks_mined:
  assumes "miner_start E N W r0 r1 wc c ws = Some (Ok m0, ws')" "(miner_step E)\<^sup>*\<^sup>* m0 m" "b \<in> set (mnSent m)"
  shows "ValidPoW (eHash E) (encH E) (bkHeader b) = Ok True \<and> VerifyMerkleHash (eHash E) (encT E) b
    \<and> (\<exists>prev. bhSeqNum (bkHeader b) = bhSeqNum prev + 1 \<and> bhPrevHash (bkHeader b) = header_hash E prev)"
proof -
  have "miner_inv E m" using miner_steps_inv [OF assms(2) miner_start_inv [OF assms(1)]] by simp
  with assms(3) have "mined_from E (mnAddress m) b" "ValidPoW (eHash E) (encH E) (bkHeader b) = Ok True"
    by (auto simp: miner_inv_def)
  with mined_from_fields [OF this(1)] show ?thesis by blast
qed

theorem sent_blocks_mined_witness:
  "\<exists>m0 ws' m b. miner_start demo_env demo_wire demo_wenv 2 3 \<lparr>wcAddress = [], WalletToken = 9, wcKeys = [], wcOutputs = []\<rparr>
       demo_client demo_wallet = Some (Ok m0, ws') \<and> (miner_step demo_env)\<^sup>*\<^sup>* m0 m \<and> mnSent m = [b]
     \<and> VerifyMerkleHash (eHash demo_env) (encT demo_env) b"
proof -
  let ?wc = "\<lparr>wcAddress = [], WalletToken = 9, wcKeys = [], wcOutputs = []\<rparr>"
    and ?r = "\<lparr>rqCookie = Some (b64_enc (sum_bytes 9)), rqBody = []\<rparr>" and ?addr = "trPub (prTrack demo_priv)"
  have "authenticateToken demo_wenv ?r demo_wallet = Ok None"
    unfolding authenticateToken_iff by (simp add: demo_wallet_def db_get_def alist_db_def slice_def)
  moreover have "Refresh demo_wenv demo_wallet = (Ok (), demo_wallet\<lparr>Outputs := []\<rparr>)"
    by (simp add: Refresh_def go_bind_apply demo_wallet_def alist_db_def of_sum_def)
  ultimately have "handleTracking demo_wenv ?r demo_wallet = (Ok (TrackingResp [TrackingKey demo_priv]), demo_wallet\<lparr>Outputs := []\<rparr>)"
    by (simp add: handleTracking_def authorised_def authorise_def go_bind_apply go_try_apply) (simp add: demo_wallet_def)
  then have tk: "TrackingKeys demo_wire demo_wenv ?wc demo_wallet = Some (Ok [TrackingKey demo_priv], demo_wallet\<lparr>Outputs := []\<rparr>)"
    using wire_ok_demo_wire
    by (simp add: TrackingKeys_def call_def POST_def serve_def MarshalToken_def demo_wire_up wire_ok_def of_sum_def)
  have good: "good_rcpt log_curve ?addr"
    unfolding good_rcpt_def demo_priv_def by (auto intro: curve_ok_log_curve simp: cBase_gen)
  obtain cb0 where cb0: "NewCoinbaseTxn (\<lambda>bs. 7) log_curve ?addr 0 0 2 = Ok cb0" using NewCoinbaseTxn_good [OF good] by blast
  obtain cb1 where cb1: "NewCoinbaseTxn (\<lambda>bs. 7) log_curve ?addr 1 0 3 = Ok cb1" using NewCoinbaseTxn_good [OF good] by blast
  let ?h = "(genesis_header (eNow demo_env))\<lparr>bhMerkleRoot := 7\<rparr>"
  have gen: "GenesisBlock (\<lambda>bs. 7) log_curve (encT demo_env) (encH demo_env) (eNow demo_env) ?addr 2
      = Some (Ok \<lparr>bkHeader = ?h, bkTxns = [cb0]\<rparr>)"
    by (simp add: GenesisBlock_def cb0 Let_def MerkleHash_eq)
      (subst mine_nonce.simps, simp add: ValidPoW_genesis genesis_header_def)
  obtain c' where c': "WriteBlock demo_env \<lparr>bkHeader = ?h, bkTxns = [cb0]\<rparr> demo_client = (Ok (), c')" "txnPoolDB (dbm c') = []"
    by (simp add: WriteBlock_def go_when_def PutBlock_def Let_def db_upd_cases go_bind_apply write_pimgs_def PutMapToBlock_def
        clear_pool_def alist_db_def demo_client_def)
  let ?c = "c'\<lparr>LastHeader := ?h\<rparr>"
  have "TxnsFromPool demo_env ?c = Ok []" using c'(2) by (simp add: TxnsFromPool_def alist_db_def)
  then obtain b1 where b1: "NewBlock demo_env ?c ?h ?addr (eNow demo_env) 3 = Ok b1" "bhDifficulty (bkHeader b1) = INITIAL_DIFFICULTY"
    using cb1 by (simp add: NewBlock_def Let_def ComputeDifficulty_def genesis_header_def DIFFICULTY_SPACING_def)
  let ?m0 = "\<lparr>mnClient = ?c, mnWallet = ?wc, mnAddress = ?addr, mnBlock = b1, mnLast = header_hash demo_env ?h, mnRecent = False, mnSent = []\<rparr>"
  have start: "miner_start demo_env demo_wire demo_wenv 2 3 ?wc demo_client demo_wallet = Some (Ok ?m0, demo_wallet\<lparr>Outputs := []\<rparr>)"
    by (simp add: miner_start_def tk TrackingKey_PublicKey_def TrackingKey_def gen c'(1) b1 Let_def)
  have "ValidPoW (eHash demo_env) (encH demo_env) (bkHeader (bump_nonce b1)) = Ok True"
    by (simp add: ValidPoW_genesis b1(2) bump_nonce_def)
  then have t: "try_nonce demo_env 1 ?m0 = (Ok (), ?m0\<lparr>mnBlock := bump_nonce b1, mnSent := [bump_nonce b1]\<rparr>)"
    by (subst try_nonce_same_head) auto
  have "env_like demo_env demo_env" by (simp add: env_like_def)
  from miner_step.attempt [OF this t] have steps: "(miner_step demo_env)\<^sup>*\<^sup>* ?m0 (?m0\<lparr>mnBlock := bump_nonce b1, mnSent := [bump_nonce b1]\<rparr>)"
    by simp
  from sent_blocks_mined [OF start this, of "bump_nonce b1"] start this show ?thesis by fastforce
qed

text \<open>
  C25: The miner tries the nonces in order and sends the first that meets the target: with the head unchanged, if the
  \<open>k\<close>th nonce after the current one is the first that is valid, then \<open>k\<close> attempts send exactly the block with
  that nonce.
\<close>

theorem first_valid_nonce_sent:
  assumes "mnLast m = header_hash E (LastHeader (mnClient m))" "0 < k"
    and "\<And>i. 0 < i \<Longrightarrow> i < k \<Longrightarrow> ValidPoW (eHash E) (encH E) (bkHeader (with_nonce (mnBlock m) i)) = Ok False"
    and "ValidPoW (eHash E) (encH E) (bkHeader (with_nonce (mnBlock m) k)) = Ok True"
  shows "((\<lambda>m. snd (try_nonce E r m)) ^^ k) m
    = m\<lparr>mnBlock := with_nonce (mnBlock m) k, mnSent := mnSent m @ [with_nonce (mnBlock m) k]\<rparr>"
proof -
  obtain j where k: "k = Suc j" using assms(2) by (cases k) auto
  let ?m = "m\<lparr>mnBlock := with_nonce (mnBlock m) j\<rparr>"
  have "((\<lambda>m. snd (try_nonce E r m)) ^^ j) m = ?m" by (rule failed_attempts [OF assms(1)]) (simp add: assms(3) k)
  moreover have "try_nonce E r ?m = (Ok (), m\<lparr>mnBlock := with_nonce (mnBlock m) k, mnSent := mnSent m @ [with_nonce (mnBlock m) k]\<rparr>)"
    using try_nonce_same_head [of ?m E True r] assms(1,4) by (simp add: bump_with_nonce k)
  ultimately show ?thesis by (simp add: k)
qed

theorem first_valid_nonce_sent_witness:
  "\<exists>(E :: (bytes \<times> bytes) list env) m. ValidPoW (eHash E) (encH E) (bkHeader (with_nonce (mnBlock m) 1)) = Ok False
     \<and> mnSent (((\<lambda>m. snd (try_nonce E 1 m)) ^^ 2) m) = [with_nonce demo_block 2]"
proof -
  let ?E = "demo_env\<lparr>encH := \<lambda>h. nat_be (unat (bhNonce h)), eHash := \<lambda>bs. if be_nat bs = 2 then 7 else 2 ^ 255\<rparr>"
  let ?m = "\<lparr>mnClient = demo_client, mnWallet = \<lparr>wcAddress = [], WalletToken = 9, wcKeys = [], wcOutputs = []\<rparr>,
     mnAddress = demo_rcpt, mnBlock = demo_block, mnLast = header_hash ?E (LastHeader demo_client), mnRecent = False, mnSent = []\<rparr>"
  have h256: "unat (2 ^ 255 :: SHA256Sum) = 2 ^ 255" by simp
  have p: "ValidPoW (eHash ?E) (encH ?E) (bkHeader (with_nonce demo_block k)) = Ok (k = 2)" if "k < 2 ^ 64" for k
    using that by (subst ValidPoW_genesis) (auto simp: with_nonce_def demo_block_def demo_header_def INITIAL_DIFFICULTY_def unat_of_nat h256)
  have q: "((\<lambda>m. snd (try_nonce ?E 1 m)) ^^ 2) ?m = ?m\<lparr>mnBlock := with_nonce (mnBlock ?m) 2, mnSent := mnSent ?m @ [with_nonce (mnBlock ?m) 2]\<rparr>"
    by (rule first_valid_nonce_sent) (use p in auto)
  have "ValidPoW (eHash ?E) (encH ?E) (bkHeader (with_nonce (mnBlock ?m) 1)) = Ok False" using p [of 1] by simp
  moreover have "mnSent (((\<lambda>m. snd (try_nonce ?E 1 m)) ^^ 2) ?m) = [with_nonce demo_block 2]" unfolding q by simp
  ultimately show ?thesis by blast
qed

end
