(* ===== verification/Ledger.thy ===== *)
theory Ledger
  imports ClientLoop
begin

text \<open>
  What a client's databases promise, as an abstract ledger: a head, the headers and blocks that can be read, the block
  each object is recorded in, and the set of spent preimages.  It has one step, appending a block whose
  payments spend recorded outputs and fresh preimages and whose coinbase opens to the reward and the fees.  Every run of the
  client loop is a sequence of such steps.
\<close>

section \<open>The ledger\<close>

record ledger =
  ldFull :: bool
  ldHead :: BlockHeader
  ldHeaders :: "SHA256Sum \<Rightarrow> BlockHeader option res"
  ldBlocks :: "SHA256Sum \<Rightarrow> Block option res"
  ldWhere :: "SHA256Sum \<Rightarrow> SHA256Sum option"
  ldSpent :: "SHA256Sum set"

definition block_spends :: "'d env \<Rightarrow> Block \<Rightarrow> SHA256Sum set" where
  "block_spends E b = {p. \<exists>t \<in> set (tl (bkTxns b)). pimg_hash E t = Ok p}"

definition block_objects :: "'d env \<Rightarrow> Block \<Rightarrow> SHA256Sum set" where
  "block_objects E b = block_spends E b \<union> (\<Union>t \<in> set (bkTxns b). output_hash E ` set (tbOutputs (txBody t)))"

definition ledger_accepts :: "'d env \<Rightarrow> ledger \<Rightarrow> Block \<Rightarrow> bool" where
  "ledger_accepts E L b \<longleftrightarrow>
     (\<forall>t \<in> set (tl (bkTxns b)). \<exists>p. pimg_hash E t = Ok p \<and> p \<notin> ldSpent L \<and> (\<forall>i \<in> set (tbInputs (txBody t)). ldWhere L i \<noteq> None))
   \<and> bkTxns b \<noteq> []
   \<and> VerifyCoinbaseTxn (eCurve E) (hd (bkTxns b))
        (CoinbaseValue (bhSeqNum (bkHeader b)) + (\<Sum>t \<leftarrow> tl (bkTxns b). tbFee (txBody t))) = Ok True"

definition ledger_append :: "'d env \<Rightarrow> Block \<Rightarrow> ledger \<Rightarrow> ledger" where
  "ledger_append E b L =
     (let h = header_hash E (bkHeader b)
      in L\<lparr>ldHead := bkHeader b,
           ldHeaders := (ldHeaders L)(h := Ok (Some (bkHeader b))),
           ldBlocks := (if ldFull L then (ldBlocks L)(h := Ok (Some b)) else ldBlocks L),
           ldWhere := (\<lambda>k. if k \<in> block_objects E b then Some h else ldWhere L k),
           ldSpent := ldSpent L \<union> block_spends E b\<rparr>)"

inductive ledger_step :: "'d env \<Rightarrow> ledger \<Rightarrow> ledger \<Rightarrow> bool" for E where
  append: "ledger_accepts E L b \<Longrightarrow> ledger_step E L (ledger_append E b L)"

text \<open>The abstraction: what the reads of a client give.\<close>

definition ledger_of :: "'d env \<Rightarrow> 'd Client \<Rightarrow> ledger" where
  "ledger_of E c = \<lparr>ldFull = (cType c = BLOCKCHAIN_CLIENT), ldHead = LastHeader c, ldHeaders = GetHeader E c,
     ldBlocks = GetBlock E c, ldWhere = (\<lambda>k. case MapToBlock E c k of Ok h \<Rightarrow> Some h | _ \<Rightarrow> None),
     ldSpent = {p. GetPreimage E c p}\<rparr>"

definition refines :: "'d env \<Rightarrow> 'd Client \<Rightarrow> 'd Client \<Rightarrow> bool" where
  "refines E c c' \<longleftrightarrow> (ledger_step E)\<^sup>*\<^sup>* (ledger_of E c) (ledger_of E c')"

interpretation ledger_order: state_order refines
  by unfold_locales (auto simp: refines_def)

section \<open>Extending the main chain appends\<close>

lemma verify_loop_fees:
  "verify_loop E c m s (Suc i) txns coinbase = Ok (Some r) \<Longrightarrow> r = coinbase + (\<Sum>t \<leftarrow> txns. tbFee (txBody t))"
proof (induction txns arbitrary: i coinbase)
  case (Cons t txns)
  then have "verify_loop E c m s (Suc (Suc i)) txns (coinbase + tbFee (txBody t)) = Ok (Some r)"
    by (auto simp: res_bind_eq_Ok split: if_splits)
  from Cons.IH [OF this] show ?case by (simp add: add.assoc)
qed simp

lemma PostValidBlock_coinbase:
  assumes "PostValidBlock E c b None None = Ok True"
  shows "bkTxns b \<noteq> [] \<and> VerifyCoinbaseTxn (eCurve E) (hd (bkTxns b))
    (CoinbaseValue (bhSeqNum (bkHeader b)) + (\<Sum>t \<leftarrow> tl (bkTxns b). tbFee (txBody t))) = Ok True"
  using assms
  by (cases "bkTxns b")
    (auto simp: PostValidBlock_def VerifyTxns_def path_list_def res_bind_eq_Ok at_def split: if_splits option.splits
      dest!: verify_loop_fees)

lemma block_pimgs_set: "block_pimgs E (Suc i) txns = Ok ps \<Longrightarrow> set ps = {p. \<exists>t \<in> set txns. pimg_hash E t = Ok p}"
  by (induction txns arbitrary: i ps) (auto simp: res_bind_eq_Ok)

lemma block_sets:
  assumes "block_pimgs E 0 (bkTxns b) = Ok ps" "map_keys E 0 (bkTxns b) = Ok ks"
  shows "set ps = block_spends E b" "set ks = block_objects E b"
proof -
  show "set ps = block_spends E b"
    using assms(1) block_pimgs_set [of E 0 "tl (bkTxns b)" ps]
    by (cases "bkTxns b") (auto simp: block_spends_def)
  show "set ks = block_objects E b"
    using map_keys_recorded [OF assms(2)] by (auto simp: block_objects_def block_spends_def)
qed

lemma PostValidBlock_accepts:
  assumes "PostValidBlock E c b None None = Ok True"
  shows "ledger_accepts E (ledger_of E c) b"
proof -
  have "\<exists>p. pimg_hash E t = Ok p \<and> \<not> GetPreimage E c p \<and> (\<forall>i \<in> set (tbInputs (txBody t)). is_ok (MapToBlock E c i))"
    if "t \<in> set (tl (bkTxns b))" for t
    using PostValidBlock_verified [OF assms that] unfolding VerifyTxn_iff
    by (auto simp: list_all2_conv_all_nth in_set_conv_nth)
  then show ?thesis
    using PostValidBlock_coinbase [OF assms]
    by (force simp: ledger_accepts_def ledger_of_def is_ok_iff)
qed

lemma ExtendMainChain_appends:
  assumes "env_ok E" "ExtendMainChain E (bkHeader b) b c = (Ok True, c')"
  shows "ledger_of E c' = ledger_append E b (ledger_of E c)"
proof -
  from ExtendMainChain_effect [OF assms] obtain ps ks where eff: "block_pimgs E 0 (bkTxns b) = Ok ps"
    "map_keys E 0 (bkTxns b) = Ok ks" "LastHeader c' = bkHeader b"
    "\<And>k. GetHeader E c' k = (if k = header_hash E (bkHeader b) then Ok (Some (bkHeader b)) else GetHeader E c k)"
    "\<And>k. GetBlock E c' k = (if cType c = BLOCKCHAIN_CLIENT \<and> k = header_hash E (bkHeader b) then Ok (Some b) else GetBlock E c k)"
    "\<And>p. GetPreimage E c' p \<longleftrightarrow> p \<in> set ps \<or> GetPreimage E c p"
    "\<And>k. MapToBlock E c' k = (if k \<in> set ks then Ok (header_hash E (bkHeader b)) else MapToBlock E c k)"
    by blast
  have "cType c' = cType c"
    using keeps_ExtendMainChain [OF assms(1), of "bkHeader b" b] assms(2) by (metis chain_grows_def keeps_def snd_conv)
  with eff show ?thesis
    by (auto simp: ledger_of_def ledger_append_def Let_def block_sets [OF eff(1,2)] fun_eq_iff)
qed

lemma ExtendMainChain_refines:
  assumes "env_ok E" "ldb_reliable (eLdb E)"
  shows "refines E c (snd (ExtendMainChain E (bkHeader b) b c))"
proof (cases "PostValidBlock E c b None None = Ok True")
  case True
  obtain c' where c': "ExtendMainChain E (bkHeader b) b c = (Ok True, c')"
    using ExtendMainChain_total [OF assms(2) True] by (metis prod.collapse)
  show ?thesis
    using ledger_step.append [OF PostValidBlock_accepts [OF True]]
    by (simp add: refines_def c' ExtendMainChain_appends [OF assms(1) c'])
next
  case False
  then have "snd (ExtendMainChain E (bkHeader b) b c) = c"
    by (cases "PostValidBlock E c b None None") (auto simp: ExtendMainChain_def go_bind_read)
  then show ?thesis by (simp add: ledger_order.refl)
qed

section \<open>Everything else leaves the ledger alone\<close>

lemma refines_same:
  "cType c' = cType c \<Longrightarrow> LastHeader c' = LastHeader c \<Longrightarrow> headerDB (dbm c') = headerDB (dbm c)
    \<Longrightarrow> blockDB (dbm c') = blockDB (dbm c) \<Longrightarrow> pimgDB (dbm c') = pimgDB (dbm c) \<Longrightarrow> mapDB (dbm c') = mapDB (dbm c)
    \<Longrightarrow> refines E c c'"
proof -
  assume "cType c' = cType c" "LastHeader c' = LastHeader c" "headerDB (dbm c') = headerDB (dbm c)"
    "blockDB (dbm c') = blockDB (dbm c)" "pimgDB (dbm c') = pimgDB (dbm c)" "mapDB (dbm c') = mapDB (dbm c)"
  then have "ledger_of E c' = ledger_of E c"
    using read_congs(1-4) [of c' c E] by (simp add: ledger_of_def fun_eq_iff)
  then show ?thesis by (simp add: refines_def)
qed

lemma refines_simple:
  "keeps (refines E) (PutTxnPool E t)" "keeps (refines E) (PutOrphanHeader E h)" "keeps (refines E) (PutOrphanBlock E b)"
  "keeps (refines E) (PutPeer E a)" "keeps (refines E) (bcast E m x)" "keeps (refines E) (sendBcast E a)"
  by (auto simp: keeps_def PutTxnPool_def PutOrphanHeader_def PutOrphanBlock_def PutPeer_def bcast_def sendBcast_def Let_def
      go_try_apply db_upd_cases split: res.splits option.splits prod.splits intro!: refines_same)

lemma refines_save_orphan: "keeps (refines E) (save_orphan E b)"
  unfolding save_orphan_def by (intro ledger_order.keeps_intros refines_simple)

lemma refines_AddToTxnPool: "keeps (refines E) (AddToTxnPool E req)"
  unfolding AddToTxnPool_def AddToTxnPoolHelper_def BcastTxn_def
  by (auto intro!: ledger_order.keeps_intros refines_simple)

lemma refines_AdoptTxn: "keeps (refines E) (AdoptTxn E txn)"
  unfolding AdoptTxn_def BcastTxn_def by (auto intro!: ledger_order.keeps_intros refines_simple)

lemma refines_serve_rpc: "serve_rpc E q c = (r, c') \<Longrightarrow> refines E c c'"
  using refines_simple(4) [of E "rpc_address q"] serve_rpc_state [of E q c] by (simp add: keeps_def)

lemma refines_AdoptMinedBlock:
  assumes "env_ok E" "ldb_reliable (eLdb E)"
  shows "keeps (refines E) (AdoptMinedBlock E b)"
proof -
  have "keeps (refines E) (ExtendMainChain E (bkHeader b) b)"
    using ExtendMainChain_refines [OF assms] by (simp add: keeps_def)
  then have "keeps (refines E) (go_bind (go_read (\<lambda>c. prechecked E b)) (\<lambda>ok. if \<not> ok then go_ret ()
       else go_try (ExtendMainChain E (bkHeader b) b)
         (\<lambda>success. if \<not> success then go_ret ()
                    else go_try (BcastBlock E (header_hash E (bkHeader b))) go_ret (\<lambda>e. go_ret ()))
         (\<lambda>e. go_ret ())))"
    unfolding BcastBlock_def by (auto intro!: ledger_order.keeps_intros refines_simple)
  then show ?thesis by (simp add: AdoptMinedBlock_def keeps_def ledger_order.refl)
qed

lemma refines_AddOrOrphan:
  assumes "env_ok E" "ldb_reliable (eLdb E)" "AddOrOrphan E req c = Some (r, c')"
  shows "refines E c c'"
proof -
  from assms(3) obtain r1 c1 where h: "AddOrOrphanHelper E req c = Some (r1, c1)" by (auto simp: AddOrOrphan_def)
  have "refines E c c1"
    using AddOrOrphanHelper_keeps [where R = "refines E", OF assms(1) _ _ _ _ h] refines_save_orphan
      ExtendMainChain_refines [OF assms(1,2)] ledger_order.refl ledger_order.trans
    unfolding keeps_def by (metis snd_conv)
  moreover have "keeps (refines E) (go_try (bcast E BcastBlockRPC (hmHash req)) go_ret (\<lambda>e. go_ret ()))"
    by (intro ledger_order.keeps_intros refines_simple)
  then have "refines E c1 c'"
    using assms(3) h by (auto simp: AddOrOrphan_def BcastBlock_def keeps_def ledger_order.refl split: res.splits if_splits)
      (metis snd_conv)
  ultimately show ?thesis by (rule ledger_order.trans)
qed

lemma refines_run_task:
  assumes "env_ok E" "ldb_reliable (eLdb E)" "run_task E task c = Some (r, c')"
  shows "refines E c c'"
proof -
  have k: "keeps (refines E) m \<Longrightarrow> m c = (r, c') \<Longrightarrow> refines E c c'" for m :: "('a Client, unit) go"
    unfolding keeps_def by (metis snd_conv)
  show ?thesis
    using assms(3) k [OF refines_AddToTxnPool] k [OF refines_AdoptMinedBlock [OF assms(1,2)]] k [OF refines_AdoptTxn]
      refines_AddOrOrphan [OF assms(1,2)]
    by (cases task) auto
qed

lemma refines_step: "env_ok E \<Longrightarrow> ldb_reliable (eLdb E) \<Longrightarrow> loop_step E s t \<Longrightarrow> refines E (lpClient s) (lpClient t)"
  by (erule loop_stepE)
    (auto simp: refines_run_task ledger_order.refl refines_simple(6) [unfolded keeps_def, rule_format]
      refines_serve_rpc)

text \<open>The ledger does not depend on the peers and the clock.\<close>

lemma refines_like:
  assumes "env_like E E'"
  shows "refines E' c c' = refines E c c'"
proof -
  have E: "eHash E' = eHash E" "eCurve E' = eCurve E" "eLdb E' = eLdb E" "encH E' = encH E" "encT E' = encT E" "encO E' = encO E"
    using assms by (simp_all add: env_like_def)
  have pim: "pimg_hash E' = pimg_hash E" and map: "MapToBlock E' = MapToBlock E"
    by (intro ext; unfold pimg_hash_def MapToBlock_def db_get_def E; rule refl)+
  have "ledger_of E' = ledger_of E"
    by (intro ext) (simp add: ledger_of_def env_like_reads [OF assms] map)
  moreover have "ledger_append E' = ledger_append E"
    by (intro ext) (simp add: ledger_append_def block_objects_def block_spends_def pim E)
  moreover have "ledger_accepts E' = ledger_accepts E"
    by (intro ext) (simp add: ledger_accepts_def pim E)
  ultimately have "ledger_step E' = ledger_step E"
    by (simp add: ledger_step.simps fun_eq_iff)
  with \<open>ledger_of E' = ledger_of E\<close> show ?thesis by (simp add: refines_def)
qed

lemma refines_run:
  "loop_run E s t \<Longrightarrow> env_ok E \<Longrightarrow> ldb_reliable (eLdb E) \<Longrightarrow> refines E (lpClient s) (lpClient t)"
proof (induction rule: loop_run.induct)
  case (run_step s t E' u)
  from run_step.hyps(2) have "eLdb E' = eLdb E" by (simp add: env_like_def)
  with run_step have "refines E' (lpClient t) (lpClient u)"
    by (intro refines_step) (auto intro: env_ok_like)
  with run_step refines_like show ?case by (blast intro: ledger_order.trans)
qed (rule ledger_order.refl)

lemma ledger_spent_mono: "(ledger_step E)\<^sup>*\<^sup>* L L' \<Longrightarrow> ldSpent L \<subseteq> ldSpent L'"
  by (induction rule: rtranclp_induct) (auto simp: ledger_step.simps ledger_append_def Let_def)

section \<open>Properties\<close>

text \<open>
  C1: A client refines an append-only ledger: whatever announcements, transactions, mined blocks, requests and peers' answers
  its loop meets and in whatever order, and whether or not a task panics, the step from the ledger its databases give
  before to the ledger they give after is a sequence of appends, each of a block that spends only recorded outputs and
  fresh preimages and whose coinbase opens to the reward and the fees; and no block the ledger would accept
  afterwards spends anything that was spent before.  Only that the databases' writes succeed is assumed.
\<close>

theorem client_refines_ledger:
  assumes "env_ok E" "ldb_reliable (eLdb E)" "loop_run E s t"
  shows "(ledger_step E)\<^sup>*\<^sup>* (ledger_of E (lpClient s)) (ledger_of E (lpClient t))
    \<and> (\<forall>b. ledger_accepts E (ledger_of E (lpClient t)) b \<longrightarrow> block_spends E b \<inter> ldSpent (ledger_of E (lpClient s)) = {})"
proof -
  have r: "(ledger_step E)\<^sup>*\<^sup>* (ledger_of E (lpClient s)) (ledger_of E (lpClient t))"
    using refines_run [OF assms(3,1,2)] by (simp add: refines_def)
  then show ?thesis
    using ledger_spent_mono [OF r] by (fastforce simp: ledger_accepts_def block_spends_def)
qed

theorem client_refines_ledger_witness:
  "\<exists>E t (b :: Block). loop_run E (loop_init demo_stored) t \<and> ldHead (ledger_of E (lpClient t)) = bkHeader b \<and> bhSeqNum (bkHeader b) = 1
     \<and> (ledger_step E)\<^sup>*\<^sup>* (ledger_of E demo_stored) (ledger_of E (lpClient t))"
proof -
  obtain cb b0 where m: "NewBlock (demo_env_for cb) demo_stored (LastHeader demo_stored) demo_rcpt \<lparr>tmNano = 0, tmZone = 0\<rparr> 3 = Ok b0"
    "bhSeqNum (bkHeader b0) = 1" "curve_ok (eCurve (demo_env_for cb))" "good_rcpt (eCurve (demo_env_for cb)) demo_rcpt"
    "ValidHeader (eHash (demo_env_for cb)) (encH (demo_env_for cb)) (eNow (demo_env_for cb)) ((bkHeader b0)\<lparr>bhNonce := 4\<rparr>) = Ok True"
    "length (encT (demo_env_for cb) (hd (bkTxns b0))) < MAX_BLOCK_SIZE"
    by (rule demo_mined)
  let ?E = "demo_env_for cb" and ?b = "b0\<lparr>bkHeader := (bkHeader b0)\<lparr>bhNonce := 4\<rparr>\<rparr>" and ?s = "loop_init demo_stored"
  obtain c' where c': "LastHeader c' = bkHeader ?b"
    "AdoptMinedBlock ?E ?b demo_stored = go_try (BcastBlock ?E (header_hash ?E (bkHeader ?b))) go_ret (\<lambda>e. go_ret ()) c'"
    using AdoptMinedBlock_adopts [OF m(3,4) demo_reliable(2) m(1) refl] m(5,6) by auto
  let ?r = "AdoptMinedBlock ?E ?b demo_stored"
  have r: "fst ?r \<noteq> Panic" "LastHeader (snd ?r) = bkHeader ?b"
    using c' by (simp_all add: BcastBlock_def go_try_apply bcast_def iter_result_def split: option.splits)
  let ?s1 = "?s\<lparr>frontier := insert (header_hash ?E (bkHeader ?b)) {}, waiting := [TMined ?b]\<rparr>"
  let ?s2 = "?s1\<lparr>starters := 0, waiting := [], executing := [TMined ?b]\<rparr>"
  let ?s3 = "?s2\<lparr>lpClient := snd ?r, executing := [], finished := [header_hash ?E (bkHeader ?b)]\<rparr>"
  have st1: "loop_step ?E ?s ?s1" using loop_step.new_block [of ?s ?E ?b] by (simp add: loop_init_def)
  have st2: "loop_step ?E ?s1 ?s2" using loop_step.start_signal [of ?s1 0 "TMined ?b" ?E] by (simp add: loop_init_def)
  have st3: "loop_step ?E ?s2 ?s3"
    using loop_step.complete [of ?s2 "TMined ?b" ?E "fst ?r" "snd ?r"] r(1) by (simp add: loop_init_def)
  have like: "env_like ?E ?E" by (simp add: env_like_def)
  have run: "loop_run ?E ?s ?s3"
    by (rule run_step [OF run_step [OF run_step [OF run_refl like st1] like st2] like st3])
  have init: "lpClient ?s = demo_stored" by (simp add: loop_init_def)
  have head: "ldHead (ledger_of ?E (lpClient ?s3)) = bkHeader ?b" using r(2) by (simp add: ledger_of_def)
  have grown: "(ledger_step ?E)\<^sup>*\<^sup>* (ledger_of ?E demo_stored) (ledger_of ?E (lpClient ?s3))"
    using client_refines_ledger [OF env_ok_demo_env_for demo_reliable(2) run] unfolding init by (rule conjunct1)
  have seq: "bhSeqNum (bkHeader ?b) = 1" using m(2) by simp
  show ?thesis
    by (rule exI [where x = ?E], rule exI [where x = ?s3], rule exI [where x = ?b], intro conjI, rule run, rule head, rule seq, rule grown)
qed

end
