(* ===== verification/Typing.thy ===== *)
theory Typing
  imports Verify
begin

text \<open>
  What it means for a transaction to be complete (no nil number or point, arrays of the declared lengths), that the
  transactions the program builds are and have at least eight inputs, that \<^verbatim>\<open>VerifyTxn\<close> does not panic on such transactions, and
  that it does on complete ones with fewer inputs.
\<close>

section \<open>Well-typed values\<close>

definition typed_proof :: "RangeProof \<Rightarrow> bool" where
  "typed_proof rp \<longleftrightarrow> length (rpSs rp) = RANGE_PROOF_LENGTH \<and> length (rpPKs rp) = RANGE_PROOF_LENGTH
     \<and> (\<forall>s \<in> set (rpSs rp). fst s \<noteq> None \<and> snd s \<noteq> None)
     \<and> (\<forall>p \<in> set (rpPKs rp). \<not> ECCPoint_Empty (fst p) \<and> \<not> ECCPoint_Empty (snd p))"

definition typed_output :: "Output \<Rightarrow> bool" where
  "typed_output o1 \<longleftrightarrow> \<not> missing_data o1 \<and> typed_proof (cmProof (oCommit o1))"

definition typed_sig :: "OZRS \<Rightarrow> bool" where
  "typed_sig sig \<longleftrightarrow> \<not> ECCPoint_Empty (zPreimage sig)
     \<and> length (zRs sig) = TXN_NUM_INPUTS \<and> length (zSs sig) = TXN_NUM_INPUTS \<and> None \<notin> set (zRs sig) \<and> None \<notin> set (zSs sig)"

definition typed_txn :: "Txn \<Rightarrow> bool" where
  "typed_txn t \<longleftrightarrow> typed_sig (txSig t) \<and> list_all typed_output (tbOutputs (txBody t))"

text \<open>What the input of a transaction needs to be to serve as a ring member.\<close>

definition typed_member :: "Output \<Rightarrow> bool" where
  "typed_member o1 \<longleftrightarrow> \<not> ECCPoint_Empty (oDestKey o1) \<and> \<not> ECCPoint_Empty (cmPt (oCommit o1))"

lemma all_some_ex: "None \<notin> set xs \<longleftrightarrow> (\<exists>ys. all_some xs = Some ys)"
  by (induction xs) (auto split: option.splits)

lemma coords_ex: "\<not> ECCPoint_Empty p \<longleftrightarrow> (\<exists>q. coords p = Some q)"
  using coords_None_iff [of p] by (cases "coords p") auto

lemma all_some_coords: "\<forall>x \<in> set xs. \<not> ECCPoint_Empty (f x) \<Longrightarrow> \<exists>ys. all_some (map (\<lambda>x. coords (f x)) xs) = Some ys"
  unfolding all_some_ex [symmetric] coords_ex by force

section \<open>Typed values never panic\<close>

lemma load_typed_proof: "typed_proof rp \<Longrightarrow> \<exists>r. load_rp rp = Some r"
proof -
  assume t: "typed_proof rp"
  have "None \<notin> set (map both (rpSs rp))"
    using t by (fastforce simp: typed_proof_def both_def split: prod.splits option.splits)
  moreover have "None \<notin> set (map (\<lambda>ab. both (map_prod coords coords ab)) (rpPKs rp))"
    using t by (fastforce simp: typed_proof_def both_def coords_ex split: prod.splits option.splits)
  ultimately show ?thesis unfolding all_some_ex load_rp_def by auto
qed

lemma typed_outputs_verify: "list_all typed_output os \<Longrightarrow> is_ok (verify_outputs E os)"
proof (induction os)
  case (Cons o1 os)
  then obtain r where "load_rp (cmProof (oCommit o1)) = Some r"
    using load_typed_proof [of "cmProof (oCommit o1)"] by (auto simp: typed_output_def)
  with Cons show ?case by (simp add: RangeProof_Verify_def deref_def)
qed simp

lemma typed_gather:
  assumes "\<forall>inp \<in> set inps. (\<exists>e. FindOutput E c inp = Err e) \<or> (\<exists>o1. FindOutput E c inp = Ok (Some o1) \<and> typed_member o1)"
  shows "gather_inputs E c m inps = Ok None \<or>
    (\<exists>ins. gather_inputs E c m inps = Ok (Some ins) \<and> length ins = length inps \<and> list_all typed_member ins)"
  using assms
proof (induction inps)
  case (Cons inp inps)
  then have IH: "gather_inputs E c m inps = Ok None \<or>
    (\<exists>ins. gather_inputs E c m inps = Ok (Some ins) \<and> length ins = length inps \<and> list_all typed_member ins)" by simp
  from Cons.prems consider e where "FindOutput E c inp = Err e" | o1 where "FindOutput E c inp = Ok (Some o1)" "typed_member o1"
    by auto
  then show ?case
  proof cases
    case 2
    then show ?thesis using IH by (auto simp: Let_def deref_def)
  qed simp
qed simp

lemma typed_ring:
  assumes "typed_txn t" "list_all typed_member ins" "TXN_NUM_INPUTS \<le> length ins"
  shows "is_ok (verify_ring E t ins)"
proof -
  have "\<forall>x \<in> set (take TXN_NUM_INPUTS ins). \<not> ECCPoint_Empty (oDestKey x)" "\<forall>x \<in> set ins. \<not> ECCPoint_Empty (cmPt (oCommit x))"
    using assms(2) by (auto simp: list_all_iff typed_member_def dest: in_set_takeD)
  from all_some_coords [OF this(1)] all_some_coords [OF this(2)] obtain pks ics where
    r: "all_some (map (\<lambda>x. coords (oDestKey x)) (take TXN_NUM_INPUTS ins)) = Some pks"
       "all_some (map (\<lambda>x. coords (cmPt (oCommit x))) ins) = Some ics" by auto
  have "\<forall>x \<in> set (tbOutputs (txBody t)). \<not> ECCPoint_Empty (cmPt (oCommit x))"
    using assms(1) by (auto simp: typed_txn_def list_all_iff typed_output_def missing_data_def)
  from all_some_coords [OF this] obtain cs where cs: "out_commits (tbOutputs (txBody t)) = Some cs"
    by (auto simp: out_commits_def)
  obtain p rs ss where "coords (zPreimage (txSig t)) = Some p" "all_some (zRs (txSig t)) = Some rs" "all_some (zSs (txSig t)) = Some ss"
    using assms(1) by (auto simp: typed_txn_def typed_sig_def coords_ex all_some_ex)
  with r cs assms(3) show ?thesis
    using all_some_length [OF r(1)] all_some_length [OF r(2)]
    by (simp add: verify_ring_def VerifyOZRS_def deref_def Let_def)
qed

lemma typed_verifies:
  assumes "typed_txn t" "TXN_NUM_INPUTS \<le> length (tbInputs (txBody t))"
    and "\<forall>inp \<in> set (tbInputs (txBody t)). (\<exists>e. FindOutput E c inp = Err e) \<or> (\<exists>o1. FindOutput E c inp = Ok (Some o1) \<and> typed_member o1)"
  shows "is_ok (VerifyTxn E c t None None None None)"
proof -
  obtain p where p: "coords (zPreimage (txSig t)) = Some p"
    using assms(1) by (auto simp: typed_txn_def typed_sig_def coords_ex)
  have "is_ok (verify_rest E c t None)"
  proof (cases "gather_inputs E c None (tbInputs (txBody t)) = Ok None")
    case False
    then obtain ins where ins: "gather_inputs E c None (tbInputs (txBody t)) = Ok (Some ins)"
      "length ins = length (tbInputs (txBody t))" "list_all typed_member ins"
      using typed_gather [OF assms(3)] by blast
    with assms(2) have "is_ok (verify_ring E t ins)" by (intro typed_ring [OF assms(1)]) simp_all
    moreover have "is_ok (verify_outputs E (tbOutputs (txBody t)))"
      using assms(1) by (intro typed_outputs_verify) (simp add: typed_txn_def)
    ultimately show ?thesis using ins(1) by (cases "verify_ring E t ins") (simp_all add: verify_rest_def)
  qed (simp add: verify_rest_def)
  with p show ?thesis by (simp add: VerifyTxn_def pimg_hash_def ECCPoint_Bytes_def deref_def)
qed

section \<open>What the program builds is typed\<close>

lemma typed_store_rp: "length (rpSs rp) = RANGE_PROOF_LENGTH \<Longrightarrow> length (rpPKs rp) = RANGE_PROOF_LENGTH \<Longrightarrow> typed_proof (store_rp rp)"
  by (auto simp: typed_proof_def store_rp_def)

lemma build_output_typed: "build_output hs cv amt rcpt d = Ok (out, blind) \<Longrightarrow> typed_output out"
  by (auto simp: build_output_def res_bind_eq_Ok Let_def typed_output_def missing_data_def store_commit_def RangeCommit_def
      RangeSign_def intro!: typed_store_rp)

lemma build_loop_typed:
  "build_loop hs cv rcpts dr i amts outputs bs = Ok (outs, bs') \<Longrightarrow> list_all typed_output outputs \<Longrightarrow> list_all typed_output outs"
  by (induction amts arbitrary: i outputs bs) (auto simp: res_bind_eq_Ok dest!: build_output_typed)

lemma OZRSSign_typed:
  assumes "OZRSSign hs cv eb txn pks ics sk yi idx yOut k1 k2 rr sr = Some (Ok t)" "idx < TXN_NUM_INPUTS"
    and "TXN_NUM_INPUTS \<le> length pks" "TXN_NUM_INPUTS \<le> length ics"
  shows "typed_sig (txSig t)"
proof -
  have 1: "idx < length pks" using assms by simp
  obtain commits where "out_commits (tbOutputs (txBody txn)) = Some commits"
    using assms(1) by (cases "out_commits (tbOutputs (txBody txn))") (auto simp: OZRSSign_def)
  let ?diffs = "commitDifferences cv commits (tbFee (txBody txn)) ics"
  define c where "c = \<lparr>rcHs = hs, rcCv = cv, rcM = hs (eb (txBody txn)), rcDiffs = ?diffs, rcPks = pks,
    rcPimg = Preimage hs cv (pks ! idx) (Some sk), rcZ = 0, rcSk = sk\<rparr>"
  have c: "rcHs c = hs" "rcCv c = cv" "rcM c = hs (eb (txBody txn))" "rcDiffs c = ?diffs" "rcPks c = pks"
      "rcPimg c = Preimage hs cv (pks ! idx) (Some sk)"
    by (simp_all add: c_def)
  let ?e = "ring_start hs cv (hs (eb (txBody txn))) (pks ! idx) (sum_Int k1) (sum_Int k2)"
  obtain es rs ss where loop: "ring_loop (ring_step hs cv (hs (eb (txBody txn))) ?diffs pks (rcPimg c) rr sr) idx
        ((idx + 1) mod TXN_NUM_INPUTS)
        ((replicate TXN_NUM_INPUTS 0)[(idx + 1) mod TXN_NUM_INPUTS := ?e],
         replicate TXN_NUM_INPUTS None, replicate TXN_NUM_INPUTS None) = Some (Ok (es, rs, ss))"
    and lens: "length rs = TXN_NUM_INPUTS" "length ss = TXN_NUM_INPUTS"
    and others: "\<And>i. i < TXN_NUM_INPUTS \<Longrightarrow> i \<noteq> idx \<Longrightarrow> rs ! i = Some (sum_Int (rr i)) \<and> ss ! i = Some (sum_Int (sr i))"
    using ring_loop_result [of c idx rr sr ?e] assms by (auto simp: c)
  have "\<exists>x y. zRs (txSig t) = rs[idx := Some x] \<and> zSs (txSig t) = ss[idx := Some y] \<and> zPreimage (txSig t) = pt (Preimage hs cv (pks ! idx) (Some sk))"
    using assms(1) \<open>out_commits _ = _\<close> loop 1 by (auto simp: OZRSSign_def ozrs_sign_def Let_def c)
  moreover have "None \<notin> set (xs[idx := Some x])" if "length xs = TXN_NUM_INPUTS" "\<And>i. i < TXN_NUM_INPUTS \<Longrightarrow> i \<noteq> idx \<Longrightarrow> xs ! i \<noteq> None"
    for x and xs :: "int option list"
  proof -
    have "xs[idx := Some x] ! i \<noteq> None" if "i < TXN_NUM_INPUTS" for i
      using \<open>length xs = _\<close> \<open>\<And>i. i < TXN_NUM_INPUTS \<Longrightarrow> i \<noteq> idx \<Longrightarrow> xs ! i \<noteq> None\<close> [OF that] that by (cases "i = idx") simp_all
    with that(1) show ?thesis by (fastforce simp: in_set_conv_nth)
  qed
  ultimately show ?thesis using lens others by (auto simp: typed_sig_def)
qed

text \<open>The ring loop passes every position but the signer's, so a signer that returns has met a full ring.\<close>

lemma ring_loop_steps:
  "ring_loop step idx i st = Some (Ok st') \<Longrightarrow> i < TXN_NUM_INPUTS \<Longrightarrow> (\<And>m. m \<le> n \<Longrightarrow> (i + m) mod TXN_NUM_INPUTS \<noteq> idx) \<Longrightarrow>
    \<exists>st1 st2. step ((i + n) mod TXN_NUM_INPUTS) st1 = Ok st2"
proof (induction n arbitrary: i st)
  case 0
  then have "i \<noteq> idx" by (metis add.right_neutral le_refl mod_less)
  with 0 show ?case by (subst (asm) ring_loop.simps) (auto split: res.splits)
next
  case (Suc n)
  let ?i = "(i + 1) mod TXN_NUM_INPUTS"
  have "i \<noteq> idx" using Suc.prems(2) Suc.prems(3) [of 0] by simp
  with Suc.prems(1) obtain st1 where "ring_loop step idx ?i st1 = Some (Ok st')"
    by (subst (asm) ring_loop.simps) (auto split: res.splits)
  moreover have "?i < TXN_NUM_INPUTS" by (simp add: TXN_NUM_INPUTS_def)
  moreover have "(?i + m) mod TXN_NUM_INPUTS \<noteq> idx" if "m \<le> n" for m
    using Suc.prems(3) [of "Suc m"] that by (simp add: mod_simps)
  ultimately show ?case using Suc.IH [of ?i st1] by (simp add: mod_simps)
qed

lemma ozrs_sign_full_ring:
  assumes "ozrs_sign hs cv hashM diffs pks sk yi idx yOut k1 k2 rr sr = Some (Ok sig)" "idx < TXN_NUM_INPUTS"
  shows "TXN_NUM_INPUTS \<le> length pks"
proof (rule ccontr)
  let ?j = "length pks" and ?n = "length pks - idx - 1"
  assume short: "\<not> TXN_NUM_INPUTS \<le> length pks"
  let ?p = "Preimage hs cv (pks ! idx) (Some sk)"
  from assms(1) obtain st st' where loop: "ring_loop (ring_step hs cv hashM diffs pks ?p rr sr) idx ((idx + 1) mod TXN_NUM_INPUTS) st = Some (Ok st')"
    and own: "idx < length pks"
    by (auto simp: ozrs_sign_def Let_def res_bind_eq_Ok at_def split: if_splits)
  have steps: "((idx + 1) mod TXN_NUM_INPUTS + m) mod TXN_NUM_INPUTS = idx + 1 + m" if "m \<le> ?n" for m
  proof -
    have "idx + 1 + m < TXN_NUM_INPUTS" using short own that by linarith
    then show ?thesis by simp
  qed
  have "idx + 1 + ?n = ?j" using own by simp
  then have j: "((idx + 1) mod TXN_NUM_INPUTS + ?n) mod TXN_NUM_INPUTS = ?j" using steps [of ?n] by simp
  have "\<exists>st1 st2. ring_step hs cv hashM diffs pks ?p rr sr ?j st1 = Ok st2"
  proof (rule ring_loop_steps [OF loop, of ?n, unfolded j])
    show "(idx + 1) mod TXN_NUM_INPUTS < TXN_NUM_INPUTS" by (simp add: TXN_NUM_INPUTS_def)
  next
    fix m assume m: "m \<le> ?n"
    then show "((idx + 1) mod TXN_NUM_INPUTS + m) mod TXN_NUM_INPUTS \<noteq> idx" unfolding steps [OF m] by simp
  qed
  then show False by (auto simp: ring_step_def Let_def res_bind_eq_Ok at_def split: prod.splits)
qed

lemma NewTxn_typed:
  assumes "NewTxn hs cv eo eb (Some ins) sk yi idx (Some amts) (Some rcpts) fee dr k1 k2 rr sr = Some (Ok (Some txn))"
  shows "typed_txn txn \<and> 8 \<le> length ins"
proof -
  from assms(1) obtain outs bs pks ics where
    n: "0 \<le> idx" "idx < 8" "BuildOutputs hs cv amts rcpts dr = Ok (outs, bs)"
      "all_some (map (\<lambda>inp. coords (oDestKey inp)) (take 8 ins)) = Some pks"
      "all_some (map (\<lambda>inp. coords (cmPt (oCommit inp))) ins) = Some ics"
      "OZRSSign hs cv eb \<lparr>txBody = \<lparr>tbInputs = map (Output_Hash hs eo) ins, tbOutputs = outs, tbFee = fee\<rparr>, txSig = nil_sig\<rparr>
         pks ics sk yi (nat idx) bs k1 k2 rr sr = Some (Ok txn)"
    by (auto simp: NewTxn_def TXN_NUM_INPUTS_def res_bind_eq_Ok Let_def split: option.splits if_splits res.splits prod.splits)
  have "TXN_NUM_INPUTS \<le> length pks"
    using n(1,2,6) by (auto simp: OZRSSign_def Let_def res_bind_eq_Ok TXN_NUM_INPUTS_def split: option.splits
        dest!: ozrs_sign_full_ring [unfolded TXN_NUM_INPUTS_def])
  then have full: "8 \<le> length ins" using all_some_length [OF n(4)] by (simp add: TXN_NUM_INPUTS_def)
  then have "typed_sig (txSig txn)"
    using n all_some_length [OF n(4)] all_some_length [OF n(5)]
    by (intro OZRSSign_typed [OF n(6)]) (simp_all add: TXN_NUM_INPUTS_def)
  moreover have "list_all typed_output outs"
    using n(3) build_loop_typed [of hs cv rcpts dr 0 amts "[]" 0 outs bs] by (simp add: BuildOutputs_def)
  moreover have "tbOutputs (txBody txn) = outs"
    using NewTxn_outputs [OF assms(1)] n(3) by simp
  ultimately show ?thesis using full by (simp add: typed_txn_def)
qed

section \<open>Too few inputs\<close>

lemma gather_recorded:
  assumes "\<forall>inp \<in> set inps. (\<exists>o1. FindOutput E c inp = Ok (Some o1) \<and> typed_member o1) \<and> is_ok (MapToBlock E c inp)"
  shows "\<exists>ins. gather_inputs E c None inps = Ok (Some ins) \<and> length ins = length inps"
  using assms by (induction inps) (force simp: Let_def deref_def)+

lemma short_ring_panics: "length ins < TXN_NUM_INPUTS \<Longrightarrow> verify_ring E t ins = Panic"
proof -
  assume short: "length ins < TXN_NUM_INPUTS"
  have "VerifyOZRS hs cv eb t pks ics = Panic" if "length pks < TXN_NUM_INPUTS" for hs cv eb pks ics
    using that by (simp add: VerifyOZRS_def Let_def deref_def split: option.splits)
  with short all_some_length show ?thesis by (fastforce simp: verify_ring_def split: option.splits)
qed

lemma short_txn_panics:
  assumes "\<not> ECCPoint_Empty (zPreimage (txSig t))" "length (tbInputs (txBody t)) < TXN_NUM_INPUTS"
    and "\<forall>inp \<in> set (tbInputs (txBody t)). (\<exists>o1. FindOutput E c inp = Ok (Some o1) \<and> typed_member o1) \<and> is_ok (MapToBlock E c inp)"
    and "\<And>p. pimg_hash E t = Ok p \<Longrightarrow> \<not> GetPreimage E c p"
  shows "VerifyTxn E c t None None None None = Panic"
proof -
  obtain ins where ins: "gather_inputs E c None (tbInputs (txBody t)) = Ok (Some ins)" "length ins = length (tbInputs (txBody t))"
    using gather_recorded [OF assms(3)] by auto
  with assms(2) have "verify_rest E c t None = Panic" by (simp add: verify_rest_def short_ring_panics)
  then show ?thesis using assms(1,4) by (auto simp: VerifyTxn_def pimg_hash_def ECCPoint_Bytes_def deref_def coords_ex)
qed

section \<open>Properties\<close>



end
