(* ===== verification/Spending.thy ===== *)
theory Spending
  imports WalletSrv Typing
begin

text \<open>
  From a mined block to a payment: the coinbase output that \<^verbatim>\<open>NewCoinbaseTxn\<close> makes for a wallet, the payment that
  \<^verbatim>\<open>handleSign\<close> builds from it, and its acceptance by \<^verbatim>\<open>VerifyTxn\<close>, across wallet, transactions and verification.
\<close>

section \<open>The reward belongs to the miner's key\<close>

lemma coinbase_output_owned:
  assumes cv: "curve_ok cv" and key: "key_pair cv priv tsk psk"
    and cb: "NewCoinbaseTxn hs cv (PrivateKey_PublicKey priv) seqNum fee r = Ok cb" "o1 \<in> set (tbOutputs (txBody cb))"
  obtains x where "BelongsToMe hs cv o1 (TrackingKey priv) = Ok True" "ComputeBlindingFactor hs cv o1 priv = Ok 0"
    "ComputeTxnPrivateKey hs cv o1 priv = Ok x" "0 \<le> x" "oDestKey o1 = pt (cBase cv (int_be x))"
    "cmPt (oCommit o1) = pt (PedersenSum cv (int_be 0) (nat_be (unat (CoinbaseValue seqNum + fee))))"
proof -
  from key have keys: "TPK (PrivateKey_PublicKey priv) = pt (gen cv tsk)" "PPK (PrivateKey_PublicKey priv) = pt (gen cv psk)"
    "0 \<le> tsk" "0 \<le> psk" "TSK (TrackingKey priv) = Some tsk" "PSK priv = Some psk"
    "PPK (trPub (TrackingKey priv)) = pt (gen cv psk)"
    by (simp_all add: key_pair_def PrivateKey_PublicKey_def TrackingKey_def)
  let ?h = "hs (point_Bytes (gen cv (tsk * uint r)))"
  have o1: "oPublicKey o1 = pt (gen cv (uint r))" "oDestKey o1 = pt (gen cv (uint ?h + psk))" "oBlindSeed o1 = pt (0, 0)"
    "cmPt (oCommit o1) = pt (PedersenSum cv (int_be 0) (UIntBytes (CoinbaseValue seqNum + fee)))"
    using cb by (auto simp: NewCoinbaseTxn_def Let_def keys dest_key_gen [OF cv] cBase_gen [OF cv])
  have h: "HashSharedSecret hs cv o1 (TrackingKey priv) = Ok ?h"
    using o1 keys cv by (simp add: HashSharedSecret_def curve_simps mult.commute)
  show thesis
  proof (rule that [of "uint ?h + psk"])
    show "BelongsToMe hs cv o1 (TrackingKey priv) = Ok True"
      using o1 keys cv by (simp add: BelongsToMe_def h curve_simps)
    show "ComputeBlindingFactor hs cv o1 priv = Ok 0" by (simp add: ComputeBlindingFactor_def o1)
    show "ComputeTxnPrivateKey hs cv o1 priv = Ok (uint ?h + psk)" using keys by (simp add: ComputeTxnPrivateKey_def h)
    show "oDestKey o1 = pt (cBase cv (int_be (uint ?h + psk)))" using o1 keys cv by (simp add: cBase_gen)
    show "cmPt (oCommit o1) = pt (PedersenSum cv (int_be 0) (nat_be (unat (CoinbaseValue seqNum + fee))))"
      using o1 by (simp add: UIntBytes_def)
  qed (use keys in simp)
qed

section \<open>Signing a payment\<close>

lemma change_adds_up:
  fixes amt fee v :: u64
  assumes "unat amt + unat fee < 2 ^ 64" "amt + fee \<le> v"
  shows "unat v = sum_list (map unat [amt, v - (amt + fee)]) + unat fee"
proof -
  have "unat (amt + fee) = unat amt + unat fee" by (rule unat_add_lem [THEN iffD1]) (use assms(1) in simp)
  then show ?thesis using assms(2) unat_sub [OF assms(2)] by (simp add: word_le_nat_alt)
qed

lemma handleSign_Ok:
  assumes "authorise W r ws = (Ok None, ws')" "bodySign W (rqBody r) = Inr req"
    and "good_rcpt (eCurve (wEnv W)) (smAddress req)" "smAmount req < 2 ^ 34"
    and "findFundingTxn W (smAmount req + smFee req) ws' = Ok (Some (f, priv))"
    and "RandomOutputs (wEnv W) (wsClient ws') = Some (Ok inputs)" "inputs \<noteq> []"
    and "sign_plan W req f priv ws' = Ok (o1, sk, yi, amts, rcpts)"
    and "NewTxn (eHash (wEnv W)) (eCurve (wEnv W)) (encO (wEnv W)) (encB (wEnv W)) (Some (inputs[0 := o1])) sk yi 0 (Some amts) (Some rcpts)
      (smFee req) (rndOut W) (rndK1 W) (rndK2 W) (rndR W) (rndS W) = Some (Ok (Some txn))"
  shows "handleSign W r ws = Some (Ok (TxnResp txn), ws'\<lparr>wsTxnChan := wsTxnChan ws' @ [txn]\<rparr>)"
proof -
  have "\<not> ECCPoint_Empty (PPK (smAddress req))" "\<not> ECCPoint_Empty (TPK (smAddress req))"
    using assms(3) by (auto simp: good_rcpt_def)
  with assms show ?thesis
    by (simp add: handleSign_def sign_body_def Let_def RANGE_PROOF_LENGTH_def push_bit_eq_mult not_le)
qed

text \<open>
  C6: A mining reward can be spent: when a wallet with one key holds the record of a coinbase output that
  \<^verbatim>\<open>NewCoinbaseTxn\<close> made for that key, and its client's map is that of a chain of coinbase transactions with at least eight outputs,
  then \<^verbatim>\<open>handleSign\<close>, asked by a holder of the token to pay out less than the reward, answers with a transaction over
  the reward and the next seven outputs that any client storing them accepts as long as the reward is unspent, and hands
  the same transaction to its client.
\<close>

theorem coinbase_reward_spent:
  fixes W :: "'d wenv"
  defines "E \<equiv> wEnv W" and "hs \<equiv> eHash (wEnv W)" and "cv \<equiv> eCurve (wEnv W)"
  assumes "curve_ok cv" "key_pair cv priv tsk psk"
    and "NewCoinbaseTxn hs cv (PrivateKey_PublicKey priv) seqNum fees r0 = Ok cb" "o1 \<in> set (tbOutputs (txBody cb))"
    and "authorise W r ws = (Ok None, ws')" "Privs ws' = [priv]" "bodySign W (rqBody r) = Inr req"
    and "good_rcpt cv (smAddress req)" "smAmount req < 2 ^ 34" "unat (smAmount req) + unat (smFee req) < 2 ^ 64"
    and "findFundingTxn W (smAmount req + smFee req) ws' = Ok (Some (f, priv))" "opOutput f = Some o1"
      "opAmount f = CoinbaseValue seqNum + fees"
    and "opAmount f \<noteq> smAmount req + smFee req" "opAmount f - (smAmount req + smFee req) < 2 ^ 34"
    and "list_all2 (lone_entry E (wsClient ws')) (ldbIter (eLdb E) (mapDB (dbm (wsClient ws')))) os" "8 \<le> length os"
    and "ring = o1 # take 7 (tl os)" "\<And>o2. o2 \<in> set ring \<Longrightarrow> typed_member o2"
    and "\<And>o2. o2 \<in> set ring \<Longrightarrow> FindOutput E c (output_hash E o2) = Ok (Some o2) \<and> is_ok (MapToBlock E c (output_hash E o2))"
    and "\<And>x. ComputeTxnPrivateKey hs cv o1 priv = Ok x \<Longrightarrow>
      \<not> GetPreimage E c (hs (point_Bytes (Preimage hs cv (the (coords (oDestKey o1))) (Some x))))"
  shows "\<exists>txn. handleSign W r ws = Some (Ok (TxnResp txn), ws'\<lparr>wsTxnChan := wsTxnChan ws' @ [txn]\<rparr>)
    \<and> VerifyTxn E c txn None None None None = Ok True
    \<and> tbInputs (txBody txn) = map (output_hash E) ring \<and> length (tbOutputs (txBody txn)) = 2 \<and> tbFee (txBody txn) = smFee req"
proof -
  note A = assms(4-) and defs = assms(1-3)
  have eqs: "hs = eHash E" "cv = eCurve E" by (simp_all add: defs)
  let ?amts = "[smAmount req, opAmount f - (smAmount req + smFee req)]"
  let ?rcpts = "[smAddress req, PrivateKey_PublicKey priv]"
  obtain x where x: "ComputeBlindingFactor hs cv o1 priv = Ok 0" "ComputeTxnPrivateKey hs cv o1 priv = Ok x" "0 \<le> x"
    "oDestKey o1 = pt (cBase cv (int_be x))" "cmPt (oCommit o1) = pt (PedersenSum cv (int_be 0) (nat_be (unat (opAmount f))))"
    using coinbase_output_owned [OF A(1-4)] A(13) by metis
  have ring: "(take 8 os)[0 := o1] = ring" "length ring = 8" 
    using A(17,18) by (cases os; simp)+
  obtain pks ics where ks: "all_some (map (\<lambda>inp. coords (oDestKey inp)) ring) = Some pks"
    "all_some (map (\<lambda>inp. coords (cmPt (oCommit inp))) ring) = Some ics"
    using all_some_coords [of ring oDestKey] all_some_coords [of ring "\<lambda>o2. cmPt (oCommit o2)"] A(19)
    by (auto simp: typed_member_def)
  have head: "pks ! nat 0 = cBase cv (int_be x)" "ics ! nat 0 = PedersenSum cv (int_be 0) (nat_be (unat (opAmount f)))"
    using all_some_eq_nth [OF ks(1), of 0] all_some_eq_nth [OF ks(2), of 0] A(18) x(4,5) by simp_all
  have rcpts: "rc \<in> set ?rcpts \<Longrightarrow> good_rcpt cv rc" for rc
    using A(2,8) by (auto simp: good_rcpt_def key_pair_def PrivateKey_PublicKey_def)
  have small: "a \<in> set ?amts \<Longrightarrow> a < 2 ^ 34" for a using A(9,15) by auto
  have le: "smAmount req + smFee req \<le> opAmount f"
    using findFundingTxn_covers [OF A(11)] .
  have fresh: "\<not> GetPreimage E c (hs (point_Bytes (Preimage hs cv (pks ! nat 0) (Some x))))"
    using A(21) [OF x(2)] all_some_eq_nth [OF ks(1), of 0] A(18) by simp
  obtain txn where txn: "NewTxn hs cv (encO E) (encB E) (Some ring) x 0 0 (Some ?amts) (Some ?rcpts) (smFee req) (rndOut W)
      (rndK1 W) (rndK2 W) (rndR W) (rndS W) = Some (Ok (Some txn))"
    "VerifyTxn E c txn None None None None = Ok True" "tbFee (txBody txn) = smFee req"
    using payment_accepted [of E 0 ring pks ics x 0 "unat (opAmount f)" ?amts ?rcpts "smFee req" c "rndOut W" "rndK1 W" "rndK2 W" "rndR W" "rndS W",
        folded eqs, OF A(1) _ _ ring(2) ks x(3) head(1) _ head(2) _ rcpts small change_adds_up [OF A(10) le] A(20) [folded eqs] fresh] by auto
  have random: "RandomOutputs E (wsClient ws') = Some (Ok (take 8 os))"
    using RandomOutputs_lone [OF A(16)] A(17) by simp
  have plan: "sign_plan W req f priv ws' = Ok (o1, x, 0, ?amts, ?rcpts)"
    using A(6,12,14) x(1,2) by (simp add: sign_plan_def Let_def deref_def defs)
  have "handleSign W r ws = Some (Ok (TxnResp txn), ws'\<lparr>wsTxnChan := wsTxnChan ws' @ [txn]\<rparr>)"
    using A(8) random txn(1) by (intro handleSign_Ok [OF A(5,7) _ A(9,11) _ _ plan]) (use A(17) ring(1) in \<open>auto simp: defs\<close>)
  moreover have "length (tbOutputs (txBody txn)) = 2"
    using NewTxn_outputs [OF txn(1)] length_build_loop unfolding BuildOutputs_def by fastforce
  ultimately show ?thesis using txn NewTxn_inputs [OF txn(1)] by (auto simp: eqs)
qed

section \<open>A concrete chain\<close>

text \<open>
  A chain of nine coinbase blocks, the first of which carries the output \<open>o1\<close>; the hash function is the value of a byte
  string, and an output is written as its number.
\<close>

definition lone_output :: "nat \<Rightarrow> Output" where
  "lone_output n = mine_output\<lparr>oDestKey := pt (int n, 0)\<rparr>"

definition chain_output :: "Output \<Rightarrow> nat \<Rightarrow> Output" where
  "chain_output o1 i = (if i = 1 then o1 else lone_output i)"

definition chain_env :: "Output \<Rightarrow> (bytes \<times> bytes) list env" where
  "chain_env o1 = demo_env\<lparr>eHash := \<lambda>bs. of_nat (be_nat bs),
     encO := \<lambda>o2. nat_be (if o2 = o1 then 1 else case ptX (oDestKey o2) of Some x \<Rightarrow> nat x | None \<Rightarrow> 0),
     decBk := \<lambda>bs. Inr \<lparr>bkHeader = demo_header, bkTxns = [\<lparr>txBody = \<lparr>tbInputs = [0], tbOutputs = [chain_output o1 (be_nat bs)],
       tbFee = 0\<rparr>, txSig = zero_sig\<rparr>]\<rparr>\<rparr>"

definition chain_client :: "(bytes \<times> bytes) list Client" where
  "chain_client = demo_client\<lparr>dbm := (dbm demo_client)\<lparr>blockDB := map (\<lambda>i. (sum_bytes (of_nat i), nat_be i)) [1..<10],
     mapDB := map (\<lambda>i. (sum_bytes (of_nat i), sum_bytes (of_nat i))) [1..<10]\<rparr>\<rparr>"

lemma chain_env_simps [simp]:
  "eHash (chain_env o1) = (\<lambda>bs. of_nat (be_nat bs))" "eCurve (chain_env o1) = log_curve" "eLdb (chain_env o1) = alist_db"
  by (simp_all add: chain_env_def demo_env_def)

lemma chain_reads:
  assumes "1 \<le> i" "i < 10" "cmPt (oCommit o1) \<noteq> pt (0, 0)"
  shows "output_hash (chain_env o1) (chain_output o1 i) = of_nat i"
    and "FindBlock (chain_env o1) chain_client (of_nat i) = Ok (Some \<lparr>bkHeader = demo_header,
      bkTxns = [\<lparr>txBody = \<lparr>tbInputs = [0], tbOutputs = [chain_output o1 i], tbFee = 0\<rparr>, txSig = zero_sig\<rparr>]\<rparr>)"
    and "FindOutput (chain_env o1) chain_client (of_nat i) = Ok (Some (chain_output o1 i))"
    and "MapToBlock (chain_env o1) chain_client (of_nat i) = Ok (of_nat i)"
proof -
  have "lone_output i \<noteq> o1" using assms(3) by (auto simp: lone_output_def mine_output_def)
  then show h: "output_hash (chain_env o1) (chain_output o1 i) = of_nat i"
    by (simp add: Output_Hash_def chain_env_def chain_output_def lone_output_def pt_def)
  have d: "distinct (map (\<lambda>i. sum_bytes (of_nat i)) [1..<10])" by (simp add: upt_rec)
  have b: "map_of (map (\<lambda>i. (sum_bytes (of_nat i), nat_be i)) [1..<10]) (sum_bytes (of_nat i)) = Some (nat_be i)"
    and m: "map_of (map (\<lambda>i. (sum_bytes (of_nat i), sum_bytes (of_nat i))) [1..<10]) (sum_bytes (of_nat i)) = Some (sum_bytes (of_nat i))"
    using assms(1,2) d by (intro map_of_is_SomeI; auto simp: o_def)+
  have load: "LoadBlock (chain_env o1) chain_client (of_nat i) = Ok (Some \<lparr>bkHeader = demo_header,
      bkTxns = [\<lparr>txBody = \<lparr>tbInputs = [0], tbOutputs = [chain_output o1 i], tbFee = 0\<rparr>, txSig = zero_sig\<rparr>]\<rparr>)"
    using b by (simp add: LoadBlock_def GetBlock_def db_get_def chain_client_def demo_client_def alist_db_def of_sum_def slice_def)
      (simp add: chain_env_def)
  then show "FindBlock (chain_env o1) chain_client (of_nat i) = Ok (Some \<lparr>bkHeader = demo_header,
      bkTxns = [\<lparr>txBody = \<lparr>tbInputs = [0], tbOutputs = [chain_output o1 i], tbFee = 0\<rparr>, txSig = zero_sig\<rparr>]\<rparr>)"
    by (simp add: FindBlock_def)
  show map: "MapToBlock (chain_env o1) chain_client (of_nat i) = Ok (of_nat i)"
    using m by (simp add: MapToBlock_def db_get_def chain_client_def alist_db_def slice_def)
  show "FindOutput (chain_env o1) chain_client (of_nat i) = Ok (Some (chain_output o1 i))"
    using h by (simp add: FindOutput_def LoadOutput_def map load deref_def) (simp add: chain_client_def demo_client_def)
qed

lemma chain_lone:
  assumes "cmPt (oCommit o1) \<noteq> pt (0, 0)"
  shows "list_all2 (lone_entry (chain_env o1) chain_client) (ldbIter (eLdb (chain_env o1)) (mapDB (dbm chain_client)))
    (map (chain_output o1) [1..<10])"
proof -
  have "ldbIter (eLdb (chain_env o1)) (mapDB (dbm chain_client)) = map (\<lambda>i. (sum_bytes (of_nat i), sum_bytes (of_nat i))) [1..<10]"
    by (simp add: chain_client_def alist_db_def o_def upt_rec)
  moreover have "lone_entry (chain_env o1) chain_client (sum_bytes (of_nat i), sum_bytes (of_nat i)) (chain_output o1 i)"
    if "1 \<le> i" "i < 10" for i
    unfolding lone_entry_def using chain_reads [OF that assms] by auto
  ultimately show ?thesis by (simp add: list_all2_map1 list_all2_map2 list_all2_same)
qed

definition spend_wenv :: "Output \<Rightarrow> (bytes \<times> bytes) list wenv" where
  "spend_wenv o1 = demo_wenv\<lparr>wEnv := chain_env o1, bodySign := \<lambda>bs. Inr \<lparr>smAddress = demo_rcpt, smAmount = 4, smFee = 1\<rparr>\<rparr>"

definition spend_record :: "Output \<Rightarrow> OutputPlaintext" where
  "spend_record o1 = \<lparr>opOutput = Some o1, opHashPub = [], opTime = [], opAmount = 5000000000, opHeight = 0\<rparr>"

definition spend_wallet :: "Output \<Rightarrow> (bytes \<times> bytes) list WalletServer" where
  "spend_wallet o1 = demo_wallet\<lparr>wsClient := chain_client, txnDB := [([], codec_enc (spend_record o1))]\<rparr>"

lemma key_pair_demo_priv: "key_pair log_curve demo_priv 3 4"
  by (simp add: key_pair_def demo_priv_def cBase_gen)

lemma spend_authorised:
  "authorise (spend_wenv o1) \<lparr>rqCookie = Some (b64_enc (sum_bytes 9)), rqBody = []\<rparr> (spend_wallet o1)
    = (Ok None, (spend_wallet o1)\<lparr>Privs := [demo_priv], Outputs := [spend_record o1]\<rparr>)"
proof -
  let ?r = "\<lparr>rqCookie = Some (b64_enc (sum_bytes 9)), rqBody = []\<rparr>"
  have "wget (spend_wenv o1) (authDB (spend_wallet o1)) TOKEN_KEY = Ok (Some (sum_bytes 9))"
    by (simp add: spend_wallet_def spend_wenv_def demo_wallet_def db_get_def alist_db_def)
  then have auth: "authenticateToken (spend_wenv o1) ?r (spend_wallet o1) = Ok None"
    unfolding authenticateToken_iff by (auto simp: slice_def)
  have "Refresh (spend_wenv o1) (spend_wallet o1) = (Ok (), (spend_wallet o1)\<lparr>Privs := [demo_priv], Outputs := [spend_record o1]\<rparr>)"
    by (simp add: Refresh_def go_bind_apply spend_wallet_def spend_wenv_def demo_wallet_def alist_db_def of_sum_def)
  with auth show ?thesis by (simp add: authorise_def go_bind_apply go_try_apply)
qed

theorem coinbase_reward_spent_witness:
  "\<exists>o1 ws txn. handleSign (spend_wenv o1) \<lparr>rqCookie = Some (b64_enc (sum_bytes 9)), rqBody = []\<rparr> (spend_wallet o1) = Some (Ok (TxnResp txn), ws)
    \<and> VerifyTxn (chain_env o1) chain_client txn None None None None = Ok True \<and> tbFee (txBody txn) = 1"
proof -
  let ?hs = "(\<lambda>bs. of_nat (be_nat bs)) :: bytes \<Rightarrow> SHA256Sum" and ?r = "\<lparr>rqCookie = Some (b64_enc (sum_bytes 9)), rqBody = []\<rparr>"
  obtain cb where cb: "NewCoinbaseTxn ?hs log_curve (PrivateKey_PublicKey demo_priv) 0 0 2 = Ok cb"
    by (simp add: NewCoinbaseTxn_def Let_def PrivateKey_PublicKey_def demo_priv_def)
  then obtain o1 where o1: "o1 \<in> set (tbOutputs (txBody cb))"
    by (auto simp: NewCoinbaseTxn_def Let_def res_bind_eq_Ok)
  have val: "CoinbaseValue 0 + 0 = 5000000000" by (simp add: CoinbaseValue_def)
  obtain x where x: "BelongsToMe ?hs log_curve o1 (TrackingKey demo_priv) = Ok True" "oDestKey o1 = pt (cBase log_curve (int_be x))"
    "cmPt (oCommit o1) = pt (PedersenSum log_curve (int_be 0) (nat_be (unat (CoinbaseValue 0 + 0))))"
    using coinbase_output_owned [OF curve_ok_log_curve key_pair_demo_priv cb o1] by metis
  have "cmPt (oCommit o1) \<noteq> pt (0, 0)"
    unfolding x(3) val PedersenSum_gen [OF curve_ok_log_curve]
    using gen_eq_zero_iff [OF curve_ok_log_curve] by (simp add: P256_N_def pt_def prod_eq_iff)
  note reads = chain_reads [OF _ _ this] and lone = chain_lone [OF this]
  let ?req = "\<lparr>smAddress = demo_rcpt, smAmount = 4, smFee = 1\<rparr>" and ?W = "spend_wenv o1" and ?ws = "(spend_wallet o1)\<lparr>Privs := [demo_priv], Outputs := [spend_record o1]\<rparr>"
  have W: "wEnv ?W = chain_env o1" "bodySign ?W bs = Inr \<lparr>smAddress = demo_rcpt, smAmount = 4, smFee = 1\<rparr>" for bs
    by (simp_all add: spend_wenv_def)
  have fund: "findFundingTxn ?W (4 + 1) ?ws = Ok (Some (spend_record o1, demo_priv))"
    using x(1) by (simp add: findFundingTxn_def owner_ptr_def deref_def W spend_record_def)
  have ring: "o1 # take 7 (tl (map (chain_output o1) [1..<10])) = map (chain_output o1) [1..<9]"
    by (simp add: upt_rec chain_output_def)
  have "\<exists>txn. handleSign ?W ?r (spend_wallet o1) = Some (Ok (TxnResp txn), ?ws\<lparr>wsTxnChan := wsTxnChan ?ws @ [txn]\<rparr>)
    \<and> VerifyTxn (wEnv ?W) chain_client txn None None None None = Ok True
    \<and> tbInputs (txBody txn) = map (output_hash (wEnv ?W)) (map (chain_output o1) [1..<9])
    \<and> length (tbOutputs (txBody txn)) = 2 \<and> tbFee (txBody txn) = smFee \<lparr>smAddress = demo_rcpt, smAmount = 4, smFee = 1\<rparr>"
  proof (rule coinbase_reward_spent [where priv = demo_priv and tsk = 3 and psk = 4 and cb = cb and ?o1.0 = o1 and f = "spend_record o1"
        and seqNum = 0 and fees = 0 and ?r0.0 = 2 and os = "map (chain_output o1) [1..<10]" and req = ?req, OF _ _ _ _ spend_authorised])
    show "curve_ok (eCurve (wEnv ?W))" "key_pair (eCurve (wEnv ?W)) demo_priv 3 4" "good_rcpt (eCurve (wEnv ?W)) (smAddress ?req)"
      "NewCoinbaseTxn (eHash (wEnv ?W)) (eCurve (wEnv ?W)) (PrivateKey_PublicKey demo_priv) 0 0 2 = Ok cb"
      using key_pair_demo_priv good_demo_rcpt cb by (simp_all add: W)
    show "o1 \<in> set (tbOutputs (txBody cb))" "map (chain_output o1) [1..<9] = o1 # take 7 (tl (map (chain_output o1) [1..<10]))"
      by (rule o1, rule ring [symmetric])
    show "findFundingTxn ?W (smAmount ?req + smFee ?req) ?ws = Ok (Some (spend_record o1, demo_priv))" using fund by simp
    show "list_all2 (lone_entry (wEnv ?W) (wsClient ?ws)) (ldbIter (eLdb (wEnv ?W)) (mapDB (dbm (wsClient ?ws)))) (map (chain_output o1) [1..<10])"
      using lone by (simp add: W spend_wallet_def)
    show "opAmount (spend_record o1) = CoinbaseValue 0 + 0" unfolding val by (simp add: spend_record_def)
    show "typed_member o2" if "o2 \<in> set (map (chain_output o1) [1..<9])" for o2
      using that x(2,3) by (auto simp: typed_member_def chain_output_def lone_output_def mine_output_def)
    show "FindOutput (wEnv ?W) chain_client (output_hash (wEnv ?W) o2) = Ok (Some o2) \<and> is_ok (MapToBlock (wEnv ?W) chain_client (output_hash (wEnv ?W) o2))"
      if "o2 \<in> set (map (chain_output o1) [1..<9])" for o2
      using that reads by (auto simp: W simp del: chain_env_simps)
  qed (simp_all add: W spend_record_def GetPreimage_def chain_client_def demo_client_def db_get_def alist_db_def)
  then show ?thesis by (auto simp: W)
qed

end
