(* ===== verification/Spec2Isabelle.thy ===== *)
theory Spec2Isabelle
  imports Miner Ledger Spending
begin

text \<open>
  OZcoin: a crypto-currency with confidential amounts (Pedersen commitments with range proofs), one-time
  addresses and ring signatures (``one-time zero-sum ring signatures''), written in Go.  A \<^emph>\<open>node\<close> keeps the chain
  in LevelDB tables and talks to its peers by RPC; a \<^emph>\<open>miner\<close> (\<^verbatim>\<open>miner.go\<close>) runs a full node and mines on its head; a
  \<^emph>\<open>wallet server\<close> (\<^verbatim>\<open>wallet-server.go\<close>) runs a light node, holds the keys and answers HTTP requests, which miner and
  nodes send through the wallet client (\<^verbatim>\<open>wallet-client.go\<close>).

  \<^bold>\<open>Conventions.\<close>  The types of the theory \<open>GoBase\<close> are used throughout: \<open>u64\<close> and \<open>SHA256Sum\<close> are words, \<^verbatim>\<open>big.Int\<close> is
  \<open>int\<close>, a pointer that may be nil is an option.  A call ends as \<open>'a res\<close>, that is \<open>Ok a\<close>, \<open>Err e\<close> or \<open>Panic\<close>; a call
  that changes a state is \<open>('s, 'a) go\<close>, from the state to a result and the state left behind, also when it fails.  A loop
  that may not end is a \<open>partial_function (option)\<close>, where \<open>None\<close> is divergence; no fuel is used anywhere, and where the
  program does return this is proved (\<open>ring_loop_result\<close> for signing, \<open>genesis_block_mined\<close>, \<open>RandomOutputs_lone\<close> for the choice of ring members).
  Random draws are arguments of the operation that makes them.  Logging is left out.

  \<^bold>\<open>Theories, in the order of their imports.\<close>
  \<^item> \<open>GoBase\<close>: results, state, big-endian bytes, the locale \<open>state_order\<close> (what a property that every operation keeps needs,
    interpreted for growth of the chain, peers, the ledger and the wallet's writes).
  \<^item> \<open>Curve\<close> (\<^verbatim>\<open>eccpoint.go\<close>, \<^verbatim>\<open>hash.go\<close>, \<^verbatim>\<open>common.go\<close>), \<open>Commitment\<close> (\<^verbatim>\<open>commitment.go\<close>; locale \<open>response_scheme\<close>),
    \<open>RangeProof\<close> (\<^verbatim>\<open>rangeproof.go\<close>), \<open>Address\<close> (\<^verbatim>\<open>address.go\<close>), \<open>Base64\<close> (\<^verbatim>\<open>encoding/base64\<close>), \<open>Output\<close> (\<^verbatim>\<open>output.go\<close>),
    \<open>Ozrs\<close> (\<^verbatim>\<open>ozrs.go\<close>; locale \<open>challenge_ring\<close>), \<open>Txns\<close> (\<^verbatim>\<open>txn.go\<close>: building and validation without storage): the
    cryptographic half.  Range proofs and ring signatures are complete, a commitment opens to the low 34 bits of
    its amount, the addressee of an output recognises and can spend it, a coinbase claims exactly its value.
  \<^item> \<open>Block\<close> (\<^verbatim>\<open>block.go\<close>: headers, proof of work, Merkle root, genesis block).
  \<^item> \<open>Codec\<close>, \<open>Store\<close> (\<^verbatim>\<open>db.go\<close> and the state of \<^verbatim>\<open>client.go\<close>): the record \<open>Client\<close> with its ten tables in \<open>DBManager\<close>
    and every read and write; locale \<open>table\<close> for what a read returns after a put.
  \<^item> \<open>Peers\<close> (\<^verbatim>\<open>gossip.go\<close> and the loading functions of \<^verbatim>\<open>block.go\<close>, \<^verbatim>\<open>output.go\<close>, \<^verbatim>\<open>txn.go\<close>): locale \<open>checked_fetch\<close>, what is
    fetched has the hash that was asked for.
  \<^item> \<open>Verify\<close> (\<^verbatim>\<open>chain.go\<close>, \<^verbatim>\<open>VerifyTxn\<close>, \<^verbatim>\<open>PostValidBlock\<close>, \<^verbatim>\<open>NewBlock\<close>): when a transaction is accepted, and that what the
    program builds is.  \<open>Typing\<close>: complete transactions with at least eight inputs are verified without a panic; fewer inputs panic the verifier.
  \<^item> \<open>Consensus\<close> (\<^verbatim>\<open>consensus.go\<close>, \<^verbatim>\<open>WriteBlock\<close>, tasks of \<^verbatim>\<open>client.go\<close>): adoption of blocks and transactions with the partial
    writes an error leaves; what is spent stays spent.
  \<^item> \<open>ClientLoop\<close> (\<^verbatim>\<open>client.go\<close>): constructors and the select loop as the step relation \<open>loop_step\<close> over waiting, executing and
    finished tasks, requests of peers (\<open>serve_rpc\<close>, whose panics end the node) and broadcasts; mutual exclusion, growth of the chain, progress.
  \<^item> \<open>Ledger\<close>: the abstract specification of a node, an append-only ledger, and the refinement: every run of the client loop,
    seen through \<open>ledger_of\<close>, is a sequence of appends of acceptable blocks.
  \<^item> \<open>WalletAuth\<close>, \<open>WalletFunds\<close>, \<open>WalletSrv\<close> (\<^verbatim>\<open>wallet-server.go\<close>): credentials and tokens; choice of inputs and the wallet's
    outputs; signing, handlers and routes (\<open>serve\<close>).  \<open>Spending\<close>: a mining reward that the wallet signs over is accepted
    by the nodes.
  \<^item> \<open>WalletCli\<close> (\<^verbatim>\<open>wallet-client.go\<close>, \<^verbatim>\<open>NewWalletServer\<close>): every call of the client over \<open>serve\<close>.
  \<^item> \<open>Miner\<close> (\<^verbatim>\<open>miner.go\<close>): start, tick and attempt, runs as \<open>miner_step\<close>.

  \<^bold>\<open>Parameters and hypotheses.\<close>  SHA-256 (\<open>eHash\<close>), P-256 (the record \<open>curve\<close>), LevelDB (the record \<open>leveldb\<close>), JSON (the
  \<open>enc\<close> and \<open>dec\<close> fields), peers (\<open>eDial\<close>, \<open>ask\<close>), the clock and the float64 quotient of the retargeting rule are fields
  of the environment \<open>env\<close>; the wallet adds the codecs of \<open>wenv\<close>, HTTP the record \<open>wire\<close>.  Assumptions on them are
  named: \<open>curve_ok\<close> (the points reached form the cyclic group of prime order), \<open>ldb_ok\<close> (a table is a map and a failed write
  changes nothing), \<open>json_ok\<close>, \<open>env_ok\<close>, \<open>wenv_ok\<close>, \<open>wire_ok\<close> (what is written is read back), \<open>ldb_reliable\<close> (writes succeed).
  The encoders are total functions: a
  header whose time \<^verbatim>\<open>json.Marshal\<close> rejects (a year outside 0 to 9999), on which \<^verbatim>\<open>BlockHeader.Json\<close> panics, is outside the model.
  The random source fails only where a key or a wallet is created; in signing, outputs, range proofs and coinbases, where
  \<^verbatim>\<open>RandomBytes\<close> would panic, it does not.  Nothing is assumed of the hash.  Each is shown satisfiable by an instance that the witnesses use: the integers modulo the order
  as a curve (\<open>log_curve\<close>), association lists (\<open>alist_db\<close>), the codec of \<open>Codec\<close>, \<open>demo_wire\<close>.

  \<^bold>\<open>Behaviour that differs from the intention\<close> is modelled as it is and stated by theorems: the value generator is a known
  multiple of the base point (\<open>any_amounts_payable\<close>); the Merkle root covers the first transaction only; the decrypted amount
  is the complement; blinding factors of bits 1 to 32 are public; reorganisations never happen; a parentless block
  replaces the head; a block may repeat a payment; a peer can panic a node; any password opens the wallet; the
  choice of ring members may not end; a refused request looks like success.

  \<^bold>\<open>Not modelled.\<close>  The two \<^verbatim>\<open>main\<close> functions and the tests; the text of JSON and of logs; connections and
  HTTP below requests and responses.  Tasks of a client and handlers of the wallet are atomic: the start signal
  serialises the tasks, while RPC service, the wallet's handlers and the miner's reads of the head run beside them in the
  program, and only their interleaving between tasks is modelled.  That signatures and range proofs cannot be forged is a
  matter of computational hardness and not stated.
\<close>

end
